theory Spec2Isabelle
  imports Main "HOL-Library.Word"
begin

unbundle bit_operations_syntax

section \<open>JavaScript strings and the text helpers\<close>

text \<open>
  A JavaScript string is modelled as a \<^typ>\<open>string\<close>: each \<^typ>\<open>char\<close> is one code unit
  in the range 0..255 (the Latin-1 block, which contains every character the code
  tests for). \<^verbatim>\<open>undefined\<close> and \<^verbatim>\<open>null\<close> are \<^term>\<open>None\<close> of an option type.
  The helpers below occur with the same text in \<^verbatim>\<open>src/app.js\<close> and in the first
  file of \<^verbatim>\<open>src/unnamed/part_000\<close>.
\<close>

text \<open>The class \<^verbatim>\<open>\s\<close> of a regular expression, which is also what \<^verbatim>\<open>trim()\<close> strips:
  TAB, LF, VT, FF, CR, SPACE and NBSP among the code units below 256.\<close>

definition isSpace :: "char \<Rightarrow> bool" where
  "isSpace c = (of_char c \<in> {9, 10, 11, 12, 13, 32, 160 :: nat})"

text \<open>The class \<^verbatim>\<open>\d\<close>: the ASCII digits.\<close>

definition isDigit :: "char \<Rightarrow> bool" where
  "isDigit c = (48 \<le> (of_char c :: nat) \<and> (of_char c :: nat) \<le> 57)"

definition trim :: "string \<Rightarrow> string" where
  "trim s = rev (dropWhile isSpace (rev (dropWhile isSpace s)))"

text \<open>\<^verbatim>\<open>toLowerCase()\<close> on Latin-1: A--Z and the accented capitals U+00C0--U+00DE
  (but not the multiplication sign U+00D7) move up by 32.\<close>

definition toLowerCase_char :: "char \<Rightarrow> char" where
  "toLowerCase_char c =
     (let n = (of_char c :: nat)
      in if (65 \<le> n \<and> n \<le> 90) \<or> (192 \<le> n \<and> n \<le> 222 \<and> n \<noteq> 215)
         then char_of (n + 32) else c)"

definition toLowerCase :: "string \<Rightarrow> string" where
  "toLowerCase s = map toLowerCase_char s"

definition startsWith :: "string \<Rightarrow> string \<Rightarrow> bool" where
  "startsWith s p = (take (length p) s = p)"

text \<open>\<^verbatim>\<open>value || ''\<close> for a value that is a string, \<^verbatim>\<open>null\<close> or \<^verbatim>\<open>undefined\<close>.\<close>

definition orEmpty :: "string option \<Rightarrow> string" where
  "orEmpty v = (case v of None \<Rightarrow> [] | Some x \<Rightarrow> x)"

text \<open>\<^verbatim>\<open>s.replace(/\s+/g, r)\<close>: every maximal run of whitespace becomes \<^verbatim>\<open>r\<close>.\<close>

function replaceSpaceRuns :: "string \<Rightarrow> string \<Rightarrow> string" where
  "replaceSpaceRuns r [] = []"
| "replaceSpaceRuns r (c # cs) =
     (if isSpace c then r @ replaceSpaceRuns r (dropWhile isSpace cs)
      else c # replaceSpaceRuns r cs)"
  by pat_completeness auto
termination
  by (relation "measure (\<lambda>(r, s). length s)")
     (auto simp: length_dropWhile_le less_Suc_eq_le)

text \<open>\<^verbatim>\<open>function cleanText(value) { return (value || '').replace(/\s+/g, ' ').trim(); }\<close>\<close>

definition cleanText :: "string \<Rightarrow> string" where
  "cleanText v = trim (replaceSpaceRuns '' '' v)"

text \<open>\<^verbatim>\<open>normalizeGender\<close>: trim, then a prefix test on the lower-cased text.\<close>

definition normalizeGender :: "string \<Rightarrow> string" where
  "normalizeGender v =
     (let cleaned = trim v
      in if cleaned = [] then []
         else let lower = toLowerCase cleaned
              in if startsWith lower ''m'' then ''Male''
                 else if startsWith lower ''f'' then ''Female''
                 else if startsWith lower ''t'' then ''Transgender''
                 else cleaned)"

text \<open>\<^verbatim>\<open>Array.prototype.join\<close>.\<close>

fun join :: "string \<Rightarrow> string list \<Rightarrow> string" where
  "join sep [] = []"
| "join sep [x] = x"
| "join sep (x # y # ys) = x @ sep @ join sep (y # ys)"

text \<open>\<^verbatim>\<open>joinAddress\<close> (src/app.js): clean every part, drop the empty ones, join with
  a comma and a space.\<close>

definition joinAddress :: "string list \<Rightarrow> string" where
  "joinAddress parts = join '', '' (filter (\<lambda>p. p \<noteq> []) (map cleanText parts))"

section \<open>Structured-markup grammar (src/app.js)\<close>

text \<open>
  A record of \<^verbatim>\<open>src/app.js\<close> is a JavaScript object whose set of keys depends on the
  grammar that produced it: a finite map from property names to strings. Reading a
  property that is absent gives \<^verbatim>\<open>undefined\<close>, which \<^verbatim>\<open>||\<close> treats like the empty
  string.
\<close>

type_synonym jsobj = "string \<rightharpoonup> string"

definition field :: "jsobj \<Rightarrow> string \<Rightarrow> string" where
  "field r k = orEmpty (r k)"

text \<open>
  An element of the parsed document: its tag name, its attributes and its child
  elements. \<^verbatim>\<open>getAttribute\<close> gives \<^verbatim>\<open>null\<close> for a missing attribute;
  \<^verbatim>\<open>getElementsByTagName\<close> lists, in document order, the descendants of an element
  (for the document: every element, the root included) that carry the tag.
\<close>

datatype node = Node (tagName: string) (attributes: "(string \<times> string) list") (childNodes: "node list")

definition getAttribute :: "node \<Rightarrow> string \<Rightarrow> string option" where
  "getAttribute n a = map_of (attributes n) a"

fun elements :: "node \<Rightarrow> node list" where
  "elements (Node t as cs) = Node t as cs # concat (map elements cs)"

definition doc_getElementsByTagName :: "node \<Rightarrow> string \<Rightarrow> node list" where
  "doc_getElementsByTagName root t = filter (\<lambda>n. tagName n = t) (elements root)"

definition getElementsByTagName :: "node \<Rightarrow> string \<Rightarrow> node list" where
  "getElementsByTagName n t =
     filter (\<lambda>m. tagName m = t) (concat (map elements (childNodes n)))"

text \<open>\<^verbatim>\<open>extractXml\<close>: everything from the first \<^verbatim>\<open><\<close> on, trimmed;
  \<^verbatim>\<open>null\<close> when there is none.\<close>

definition extractXml :: "string \<Rightarrow> string option" where
  "extractXml raw =
     (if CHR ''<'' \<notin> set raw then None
      else Some (trim (dropWhile (\<lambda>c. c \<noteq> CHR ''<'') raw)))"

text \<open>\<^verbatim>\<open>parsePrintLetter\<close>, with \<^verbatim>\<open>attr(name) = node.getAttribute(name) || ''\<close>.\<close>

definition parsePrintLetter :: "node \<Rightarrow> jsobj" where
  "parsePrintLetter node =
     (let attr = (\<lambda>name. orEmpty (getAttribute node name));
          uid = attr ''uid'';
          name = attr ''name'';
          gender = attr ''gender'';
          dob = attr ''dob'';
          yob = attr ''yob'';
          pin = attr ''pc'';
          address = joinAddress
            [attr ''co'', attr ''house'', attr ''street'', attr ''lm'', attr ''loc'',
             attr ''vtc'', attr ''po'', attr ''dist'', attr ''subdist'', attr ''state'', pin]
      in [''uid'' \<mapsto> uid, ''name'' \<mapsto> name, ''gender'' \<mapsto> gender, ''dob'' \<mapsto> dob,
          ''yob'' \<mapsto> yob, ''address'' \<mapsto> address, ''pin'' \<mapsto> pin,
          ''source'' \<mapsto> ''PrintLetterBarcodeData''])"

text \<open>\<^verbatim>\<open>parseOfflinePaperless\<close>: the first \<^verbatim>\<open>Poi\<close> and \<^verbatim>\<open>Poa\<close> descendants, when
  there are any. \<^verbatim>\<open>joinAddress\<close> receives the attributes as they are, \<^verbatim>\<open>null\<close>
  included, and \<^verbatim>\<open>cleanText\<close> reads those as empty.\<close>

definition first :: "'a list \<Rightarrow> 'a option" where
  "first xs = (case xs of [] \<Rightarrow> None | x # _ \<Rightarrow> Some x)"

definition parseOfflinePaperless :: "node \<Rightarrow> jsobj" where
  "parseOfflinePaperless root =
     (let referenceId =
            (if orEmpty (getAttribute root ''referenceId'') \<noteq> []
             then orEmpty (getAttribute root ''referenceId'')
             else orEmpty (getAttribute root ''referenceid''));
          poi = first (getElementsByTagName root ''Poi'');
          poa = first (getElementsByTagName root ''Poa'');
          poiAttr = (\<lambda>a. case poi of None \<Rightarrow> [] | Some n \<Rightarrow> orEmpty (getAttribute n a));
          name = poiAttr ''name'';
          dob = poiAttr ''dob'';
          yob = poiAttr ''yob'';
          gender = poiAttr ''gender'';
          pin = (case poa of None \<Rightarrow> [] | Some n \<Rightarrow> orEmpty (getAttribute n ''pc''));
          address =
            (case poa of
               None \<Rightarrow> []
             | Some n \<Rightarrow> joinAddress
                 [orEmpty (getAttribute n ''house''), orEmpty (getAttribute n ''street''),
                  orEmpty (getAttribute n ''lm''), orEmpty (getAttribute n ''loc''),
                  orEmpty (getAttribute n ''vtc''), orEmpty (getAttribute n ''subdist''),
                  orEmpty (getAttribute n ''dist''), orEmpty (getAttribute n ''state''),
                  pin, orEmpty (getAttribute n ''po'')])
      in [''referenceId'' \<mapsto> referenceId, ''name'' \<mapsto> name, ''gender'' \<mapsto> gender,
          ''dob'' \<mapsto> dob, ''yob'' \<mapsto> yob, ''address'' \<mapsto> address, ''pin'' \<mapsto> pin,
          ''source'' \<mapsto> ''OfflinePaperlessKyc''])"

definition parseOkY :: "node \<Rightarrow> jsobj" where
  "parseOkY oky =
     (let name = orEmpty (getAttribute oky ''n'');
          referenceId = orEmpty (getAttribute oky ''r'');
          dob = orEmpty (getAttribute oky ''d'');
          gender = orEmpty (getAttribute oky ''g'');
          address = orEmpty (getAttribute oky ''a'')
      in [''referenceId'' \<mapsto> referenceId, ''name'' \<mapsto> name, ''gender'' \<mapsto> gender,
          ''dob'' \<mapsto> dob, ''address'' \<mapsto> address, ''source'' \<mapsto> ''OKY''])"

text \<open>
  \<^verbatim>\<open>parseXmlPayload\<close>. The platform's \<^verbatim>\<open>DOMParser\<close> is a parameter: it maps the
  text to the root element of a document, and reports malformed text by a document
  that contains a \<^verbatim>\<open>parsererror\<close> element. An empty \<^verbatim>\<open>xmlText\<close> is falsy.
\<close>

definition parseXmlPayload :: "(string \<Rightarrow> node) \<Rightarrow> string \<Rightarrow> jsobj option" where
  "parseXmlPayload parseFromString raw =
     (case extractXml raw of
        None \<Rightarrow> None
      | Some xmlText \<Rightarrow>
          if xmlText = [] then None
          else let doc = parseFromString xmlText
               in if doc_getElementsByTagName doc ''parsererror'' \<noteq> [] then None
                  else case doc_getElementsByTagName doc ''PrintLetterBarcodeData'' of
                         n # _ \<Rightarrow> Some (parsePrintLetter n)
                       | [] \<Rightarrow>
                     (case doc_getElementsByTagName doc ''OfflinePaperlessKyc'' of
                         n # _ \<Rightarrow> Some (parseOfflinePaperless n)
                       | [] \<Rightarrow>
                     (case doc_getElementsByTagName doc ''OKY'' of
                         n # _ \<Rightarrow> Some (parseOkY n)
                       | [] \<Rightarrow> None)))"

section \<open>Binary Secure-format grammar: big integer to bytes (src/app.js)\<close>

text \<open>
  A JavaScript \<^verbatim>\<open>BigInt\<close> is an unbounded integer (\<^typ>\<open>int\<close>); an element of a
  \<^verbatim>\<open>Uint8Array\<close> is an 8-bit word.
\<close>

type_synonym byte = "8 word"

text \<open>
  The loop of \<^verbatim>\<open>bigIntToBytes\<close>:
  \<^verbatim>\<open>while (temp > 0n) { bytes.unshift(Number(temp & 0xffn)); temp >>= 8n; }\<close>
\<close>

function bigIntToBytes_loop :: "int \<Rightarrow> byte list \<Rightarrow> byte list" where
  "bigIntToBytes_loop temp bytes =
     (if temp > 0
      then bigIntToBytes_loop (drop_bit 8 temp) (word_of_int (temp AND 0xff) # bytes)
      else bytes)"
  by pat_completeness auto
termination
proof (relation "measure (\<lambda>(temp, bytes). nat temp)")
  show "wf (measure (\<lambda>(temp, bytes). nat temp))" by simp
next
  fix temp :: int and bytes :: "byte list"
  assume "0 < temp"
  then have "temp div 256 < temp" by simp
  then show "((drop_bit 8 temp, word_of_int (temp AND 0xff) # bytes), (temp, bytes))
               \<in> measure (\<lambda>(temp, bytes). nat temp)"
    using \<open>0 < temp\<close> by (simp add: drop_bit_eq_div)
qed

declare bigIntToBytes_loop.simps [simp del]

definition bigIntToBytes :: "int \<Rightarrow> byte list" where
  "bigIntToBytes v = (if v = 0 then [0] else bigIntToBytes_loop v [])"

section \<open>Binary Secure-format grammar: fields (src/app.js)\<close>

text \<open>\<^verbatim>\<open>bytes.slice(start, i)\<close> for \<^verbatim>\<open>start \<le> i \<le> bytes.length\<close>.\<close>

definition slice :: "'a list \<Rightarrow> nat \<Rightarrow> nat \<Rightarrow> 'a list" where
  "slice xs start i = take (i - start) (drop start xs)"

text \<open>
  The scanning loop of \<^verbatim>\<open>parseSecureQrBytes\<close>:
  \<^verbatim>\<open>for (let i = 0; i < bytes.length && fields.length < 16; i += 1) {
    if (bytes[i] === 255) { fields.push(bytes.slice(start, i)); start = i + 1; } }\<close>
\<close>

function secureFields_loop :: "byte list \<Rightarrow> nat \<Rightarrow> nat \<Rightarrow> byte list list \<Rightarrow> byte list list" where
  "secureFields_loop bytes i start fields =
     (if i < length bytes \<and> length fields < 16
      then (if bytes ! i = 255
            then secureFields_loop bytes (i + 1) (i + 1) (fields @ [slice bytes start i])
            else secureFields_loop bytes (i + 1) start fields)
      else fields)"
  by pat_completeness auto
termination
  by (relation "measure (\<lambda>(bytes, i, start, fields). length bytes - i)") auto

declare secureFields_loop.simps [simp del]

text \<open>
  \<^verbatim>\<open>parseSecureQrBytes\<close>. The platform's \<^verbatim>\<open>TextDecoder('iso-8859-1')\<close> is the
  parameter \<open>decode\<close>. The destructuring reads the sixteen positions of \<open>decoded\<close>.
\<close>

definition parseSecureQrBytes :: "(byte list \<Rightarrow> string) \<Rightarrow> byte list \<Rightarrow> jsobj option" where
  "parseSecureQrBytes decode bytes =
     (let fields = secureFields_loop bytes 0 0 []
      in if length fields < 16 then None
         else let decoded = map (\<lambda>chunk. cleanText (decode chunk)) fields;
                  indicator = decoded ! 0;
                  referenceId = decoded ! 1;
                  name = decoded ! 2;
                  dob = decoded ! 3;
                  gender = decoded ! 4;
                  careOf = decoded ! 5;
                  district = decoded ! 6;
                  landmark = decoded ! 7;
                  house = decoded ! 8;
                  location = decoded ! 9;
                  pin = decoded ! 10;
                  postOffice = decoded ! 11;
                  state = decoded ! 12;
                  street = decoded ! 13;
                  subDistrict = decoded ! 14;
                  vtc = decoded ! 15
              in if indicator = [] \<or> referenceId = [] then None
                 else let address = joinAddress
                            [careOf, house, street, landmark, location, vtc, subDistrict,
                             district, state, pin, postOffice]
                      in Some [''referenceId'' \<mapsto> referenceId, ''name'' \<mapsto> name,
                               ''gender'' \<mapsto> gender, ''dob'' \<mapsto> dob,
                               ''address'' \<mapsto> address, ''pin'' \<mapsto> pin,
                               ''source'' \<mapsto> ''Secure QR''])"

text \<open>
  The platform of \<^verbatim>\<open>src/app.js\<close>: the XML parser, whether \<^verbatim>\<open>DecompressionStream\<close>
  exists, what it computes (\<^term>\<open>None\<close> when the stream throws) and the text decoder.
\<close>

record env =
  parseFromString :: "string \<Rightarrow> node"
  hasDecompressionStream :: bool
  decompress :: "byte list \<Rightarrow> byte list option"
  textDecoder :: "byte list \<Rightarrow> string"

definition inflateBytes :: "env \<Rightarrow> byte list \<Rightarrow> byte list option" where
  "inflateBytes e bytes = (if \<not> hasDecompressionStream e then None else decompress e bytes)"

text \<open>\<^verbatim>\<open>/^\d{50,}$/.test(digits)\<close>.\<close>

definition digits50 :: "string \<Rightarrow> bool" where
  "digits50 digits = (list_all isDigit digits \<and> 50 \<le> length digits)"

text \<open>\<^verbatim>\<open>BigInt(digits)\<close> on a string of decimal digits.\<close>

definition BigInt :: "string \<Rightarrow> int" where
  "BigInt digits = foldl (\<lambda>acc c. acc * 10 + (int (of_char c) - 48)) 0 digits"

definition parseSecureQr :: "env \<Rightarrow> string \<Rightarrow> jsobj option" where
  "parseSecureQr e raw =
     (let digits = replaceSpaceRuns [] raw
      in if \<not> digits50 digits then None
         else let big = BigInt digits;
                  bytes = bigIntToBytes big
              in case inflateBytes e bytes of
                   None \<Rightarrow> None
                 | Some inflated \<Rightarrow> parseSecureQrBytes (textDecoder e) inflated)"

section \<open>The decoder cascade of src/app.js\<close>

definition parseAadhaarPayload :: "env \<Rightarrow> string \<Rightarrow> jsobj option" where
  "parseAadhaarPayload e raw =
     (let trimmed = trim raw
      in if trimmed = [] then None
         else case parseXmlPayload (parseFromString e) trimmed of
                Some xmlRecord \<Rightarrow> Some xmlRecord
              | None \<Rightarrow>
                  (case parseSecureQr e trimmed of
                     Some secureRecord \<Rightarrow> Some secureRecord
                   | None \<Rightarrow> None))"

section \<open>The record store and the scan handler of src/app.js\<close>

text \<open>
  The module-level \<^verbatim>\<open>state\<close> object, with the status line of the page
  (\<^verbatim>\<open>setStatus(message, tone)\<close>: the message, and whether the tone is \<^verbatim>\<open>'error'\<close>)
  as one more field. The type of the stored records is a parameter: both programs have
  the same five fields.
\<close>

record 'r state =
  scanning :: bool
  lastValue :: "string option"
  lastValueTs :: int
  records :: "string \<rightharpoonup> 'r"
  order :: "string list"
  statusLine :: "string \<times> bool"

definition state0 :: "'r state" where
  "state0 = \<lparr>scanning = False, lastValue = None, lastValueTs = 0, records = Map.empty,
             order = [], statusLine = ([], False)\<rparr>"

definition duplicateCooldownMs :: int where
  "duplicateCooldownMs = 1200"

definition setStatus :: "string \<Rightarrow> bool \<Rightarrow> ('r, 'x) state_scheme \<Rightarrow> ('r, 'x) state_scheme" where
  "setStatus message isError s = s\<lparr>statusLine := (message, isError)\<rparr>"

text \<open>\<^verbatim>\<open>function recordKey(record) { return record.uid || record.referenceId || ''; }\<close>\<close>

definition recordKey :: "jsobj \<Rightarrow> string" where
  "recordKey r = (if field r ''uid'' \<noteq> [] then field r ''uid'' else field r ''referenceId'')"

text \<open>
  \<^verbatim>\<open>upsertRecord\<close> of \<^verbatim>\<open>src/app.js\<close>. The object spread
  \<^verbatim>\<open>{...existing, ...record, lastSeen: formatLastSeen(now)}\<close> takes every property of
  \<^verbatim>\<open>record\<close>, then those of \<^verbatim>\<open>existing\<close> that \<^verbatim>\<open>record\<close> does not have; \<open>stamp\<close>
  is the formatted time of the call.
\<close>

definition upsertRecord :: "string \<Rightarrow> jsobj \<Rightarrow> jsobj state \<Rightarrow> jsobj state" where
  "upsertRecord stamp r s =
     (let key = recordKey r
      in if key = [] then setStatus ''UID not found in QR data.'' True s
         else let existing = records s key;
                  next = ((case existing of None \<Rightarrow> Map.empty | Some ex \<Rightarrow> ex) ++ r)
                           (''lastSeen'' \<mapsto> stamp)
              in setStatus (if existing \<noteq> None then ''Record updated.'' else ''Record captured.'') False
                   (s\<lparr>records := (records s)(key \<mapsto> next),
                      order := key # filter (\<lambda>item. item \<noteq> key) (order s)\<rparr>))"

text \<open>
  \<^verbatim>\<open>handleScanResult\<close> of \<^verbatim>\<open>src/app.js\<close>; \<open>now\<close> is \<^verbatim>\<open>Date.now()\<close>. The scanner
  delivers non-empty strings only.
\<close>

definition handleScanResult :: "env \<Rightarrow> int \<Rightarrow> string \<Rightarrow> string \<Rightarrow> jsobj state \<Rightarrow> jsobj state" where
  "handleScanResult e now stamp v s =
     (if lastValue s = Some v \<and> now - lastValueTs s < duplicateCooldownMs then s
      else let s1 = s\<lparr>lastValue := Some v, lastValueTs := now\<rparr>;
               compact = replaceSpaceRuns [] v;
               looksNumeric = digits50 compact
           in if looksNumeric \<and> \<not> hasDecompressionStream e
              then setStatus ''Secure QR needs a compatible browser to decode.'' True s1
              else case parseAadhaarPayload e v of
                     None \<Rightarrow> setStatus (if looksNumeric then ''Secure QR could not be decoded.''
                                        else ''Not an Aadhaar QR format.'') True s1
                   | Some r \<Rightarrow> upsertRecord stamp r s1)"

section \<open>The generic grammars (first file of src/unnamed/part_000)\<close>

text \<open>
  The second program stores records with six fixed fields. Its functions that share a
  name with one of \<^verbatim>\<open>src/app.js\<close> carry the suffix \<open>_gen\<close>.
\<close>

record qr_record =
  username :: string
  dob :: string
  age :: string
  gender :: string
  mobile :: string
  email :: string

text \<open>\<^verbatim>\<open>value.replace(/[^\d+]/g, '')\<close> and \<^verbatim>\<open>(value || '').trim().toLowerCase()\<close>.\<close>

definition cleanPhone :: "string \<Rightarrow> string" where
  "cleanPhone v = filter (\<lambda>c. isDigit c \<or> c = CHR ''+'') v"

definition cleanEmail :: "string \<Rightarrow> string" where
  "cleanEmail v = toLowerCase (trim v)"

subsection \<open>JSON grammar\<close>

text \<open>
  The value that \<^verbatim>\<open>JSON.parse\<close> returns. Of a number the code only asks whether it
  is zero, so an integer stands for it; an object lists each of its keys once.
\<close>

datatype json =
  JNull | JBool bool | JNumber int | JString string | JArray "json list"
  | JObject "(string \<times> json) list"

fun truthy :: "json option \<Rightarrow> bool" where
  "truthy None = False"
| "truthy (Some JNull) = False"
| "truthy (Some (JBool b)) = b"
| "truthy (Some (JNumber n)) = (n \<noteq> 0)"
| "truthy (Some (JString x)) = (x \<noteq> [])"
| "truthy (Some (JArray xs)) = True"
| "truthy (Some (JObject kvs)) = True"

text \<open>\<^verbatim>\<open>typeof parsed === 'object'\<close>.\<close>

fun isObject :: "json \<Rightarrow> bool" where
  "isObject JNull = True"
| "isObject (JArray xs) = True"
| "isObject (JObject kvs) = True"
| "isObject v = False"

text \<open>Reading one of the property names of the code: an array has none of them.\<close>

fun member :: "json \<Rightarrow> string \<Rightarrow> json option" where
  "member (JObject kvs) k = map_of kvs k"
| "member v k = None"

text \<open>\<^verbatim>\<open>a || b\<close>.\<close>

definition orElse :: "json option \<Rightarrow> json option \<Rightarrow> json option" where
  "orElse a b = (if truthy a then a else b)"

text \<open>
  The string on which \<^verbatim>\<open>cleanText\<close>, \<^verbatim>\<open>normalizeGender\<close>, \<^verbatim>\<open>cleanPhone\<close> and
  \<^verbatim>\<open>cleanEmail\<close> work when they receive a parsed value: empty for a falsy value, the
  string itself for a string. Any other truthy value has no \<^verbatim>\<open>replace\<close> or \<^verbatim>\<open>trim\<close>
  method: the call throws a TypeError (\<^term>\<open>None\<close>).
\<close>

definition asText :: "json option \<Rightarrow> string option" where
  "asText v =
     (if \<not> truthy v then Some []
      else case v of Some (JString x) \<Rightarrow> Some x | _ \<Rightarrow> None)"

text \<open>\<^verbatim>\<open>parseJsonPayload\<close>; \<open>jsonParse\<close> is the platform's \<^verbatim>\<open>JSON.parse\<close>
  (\<^term>\<open>None\<close> when it throws). Every exception ends in \<^verbatim>\<open>return null\<close>.\<close>

definition parseJsonPayload :: "(string \<Rightarrow> json option) \<Rightarrow> string \<Rightarrow> qr_record option" where
  "parseJsonPayload jsonParse raw =
     (case jsonParse raw of
        None \<Rightarrow> None
      | Some parsed \<Rightarrow>
          if \<not> truthy (Some parsed) \<or> \<not> isObject parsed then None
          else
            case asText (orElse (member parsed ''username'')
                          (orElse (member parsed ''user'') (member parsed ''name''))) of
              None \<Rightarrow> None
            | Some u \<Rightarrow>
            (case asText (orElse (member parsed ''dob'')
                          (orElse (member parsed ''dateOfBirth'')
                            (orElse (member parsed ''birth'') (member parsed ''birthDate'')))) of
              None \<Rightarrow> None
            | Some d \<Rightarrow>
            (case asText (member parsed ''age'') of
              None \<Rightarrow> None
            | Some a \<Rightarrow>
            (case asText (member parsed ''gender'') of
              None \<Rightarrow> None
            | Some g \<Rightarrow>
            (case asText (orElse (member parsed ''mobile'')
                          (orElse (member parsed ''phone'') (member parsed ''phoneNumber''))) of
              None \<Rightarrow> None
            | Some m \<Rightarrow>
            (case asText (orElse (member parsed ''email'') (member parsed ''mail'')) of
              None \<Rightarrow> None
            | Some em \<Rightarrow>
                Some \<lparr>username = cleanText u, dob = cleanText d, age = cleanText a,
                      gender = normalizeGender g, mobile = cleanPhone m,
                      email = cleanEmail em\<rparr>))))))"

subsection \<open>Key-value grammar\<close>

text \<open>
  The regular expression \<^verbatim>\<open>/([^:=;\n|,]+)\s*[:=]\s*([^;\n|,]+)/g\<close>. The first group is
  a run of key characters, the second a run of value characters.
\<close>

definition isKeyChar :: "char \<Rightarrow> bool" where
  "isKeyChar c = (c \<notin> set '':=;|,'' \<and> c \<noteq> CHR 0x0A)"

definition isValChar :: "char \<Rightarrow> bool" where
  "isValChar c = (c \<notin> set '';|,'' \<and> c \<noteq> CHR 0x0A)"

text \<open>
  \<^verbatim>\<open>\s*([^;\n|,]+)\<close> at the head of a string: the second group and the text after
  the match. The greedy \<^verbatim>\<open>\s*\<close> takes the whole run of whitespace; when no value
  character follows it, the matcher gives whitespace back until the group can start,
  and the group is then the last whitespace character of the run that is no newline.
\<close>

definition kvValue :: "string \<Rightarrow> (string \<times> string) option" where
  "kvValue s =
     (let ws = takeWhile isSpace s; after = dropWhile isSpace s
      in if after \<noteq> [] \<and> isValChar (hd after)
         then Some (takeWhile isValChar after, dropWhile isValChar after)
         else case dropWhile (\<lambda>c. \<not> isValChar c) (rev ws) of
                [] \<Rightarrow> None
              | c # front \<Rightarrow> Some ([c], drop (Suc (length front)) s))"

text \<open>
  The whole expression anchored at the head of a string: both groups and the text
  after the match. The first group is the maximal run of key characters; the separator
  must be the first character after that run and the whitespace behind it.
\<close>

definition kvMatchAt :: "string \<Rightarrow> (string \<times> string \<times> string) option" where
  "kvMatchAt s =
     (let k = takeWhile isKeyChar s
      in if k = [] then None
         else case dropWhile isSpace (dropWhile isKeyChar s) of
                [] \<Rightarrow> None
              | c # r \<Rightarrow>
                  if c = CHR '':'' \<or> c = CHR ''=''
                  then (case kvValue r of
                          None \<Rightarrow> None
                        | Some (v, rest) \<Rightarrow> Some (k, v, rest))
                  else None)"

lemma kvValue_length: "kvValue s = Some (v, rest) \<Longrightarrow> length rest \<le> length s"
proof -
  have a: "length (dropWhile isValChar (dropWhile isSpace s)) \<le> length s"
    by (meson length_dropWhile_le order_trans)
  assume "kvValue s = Some (v, rest)"
  then show ?thesis using a
    by (auto simp: kvValue_def Let_def split: if_splits list.splits)
qed

lemma kvMatchAt_length:
  assumes "kvMatchAt s = Some (k, v, rest)"
  shows "length rest < length s"
proof -
  let ?t = "dropWhile isSpace (dropWhile isKeyChar s)"
  have t: "length ?t \<le> length s"
    by (meson length_dropWhile_le order_trans)
  from assms obtain c r where cr: "?t = c # r" and kv: "kvValue r = Some (v, rest)"
    by (auto simp: kvMatchAt_def Let_def split: if_splits list.splits option.splits)
  from kv have "length rest \<le> length r" by (rule kvValue_length)
  moreover from cr t have "length r < length s" by simp
  ultimately show ?thesis by simp
qed

text \<open>The successive results of \<^verbatim>\<open>regex.exec(raw)\<close>: the leftmost match, then the
  leftmost match after it, until there is none.\<close>

function kvScan :: "string \<Rightarrow> (string \<times> string) list" where
  "kvScan [] = []"
| "kvScan (c # cs) =
     (case kvMatchAt (c # cs) of
        Some (k, v, rest) \<Rightarrow> (k, v) # kvScan rest
      | None \<Rightarrow> kvScan cs)"
  by pat_completeness auto
termination
proof (relation "measure length")
  show "wf (measure length)" by simp
next
  fix c :: char and cs :: string
  show "(cs, c # cs) \<in> measure length" by simp
next
  fix c :: char and cs x2 x y x2a xa ya :: string and p :: "string \<times> string \<times> string"
    and q :: "string \<times> string"
  assume "kvMatchAt (c # cs) = Some p" and "(x, q) = p" and "(xa, ya) = q"
  then have "kvMatchAt (c # cs) = Some (x, xa, ya)" by simp
  then have "length ya < length (c # cs)" by (rule kvMatchAt_length)
  then show "(ya, c # cs) \<in> measure length" by simp
qed

text \<open>
  The assignments \<^verbatim>\<open>record[key] = value\<close> of the loop, in order. An empty key is
  skipped, and an assignment to \<^verbatim>\<open>__proto__\<close> of a string creates no property.
\<close>

definition kvAssignments :: "string \<Rightarrow> (string \<times> string) list" where
  "kvAssignments raw =
     filter (\<lambda>(key, v). key \<noteq> [] \<and> key \<noteq> ''__proto__'')
       (map (\<lambda>(k, v). (toLowerCase (trim k), trim v)) (kvScan raw))"

text \<open>Reading \<^verbatim>\<open>record.name\<close>: the last assignment to the key.\<close>

definition kvGet :: "(string \<times> string) list \<Rightarrow> string \<Rightarrow> string option" where
  "kvGet assignments k = map_of (rev assignments) k"

text \<open>\<^verbatim>\<open>a || b\<close> on strings that may be \<^verbatim>\<open>undefined\<close>.\<close>

definition orElseS :: "string option \<Rightarrow> string option \<Rightarrow> string option" where
  "orElseS a b = (if orEmpty a \<noteq> [] then a else b)"

definition parseKeyValuePayload :: "string \<Rightarrow> qr_record option" where
  "parseKeyValuePayload raw =
     (if CHR ''='' \<notin> set raw \<and> CHR '':'' \<notin> set raw then None
      else let record = kvAssignments raw
           in if record = [] then None
              else Some
                \<lparr>username = cleanText (orEmpty (orElseS (kvGet record ''username'')
                     (orElseS (kvGet record ''user'') (kvGet record ''name'')))),
                 dob = cleanText (orEmpty (orElseS (kvGet record ''dob'')
                     (orElseS (kvGet record ''dateofbirth'')
                       (orElseS (kvGet record ''birth'') (kvGet record ''birthdate''))))),
                 age = cleanText (orEmpty (kvGet record ''age'')),
                 gender = normalizeGender (orEmpty (kvGet record ''gender'')),
                 mobile = cleanPhone (orEmpty (orElseS (kvGet record ''mobile'')
                     (orElseS (kvGet record ''phone'') (kvGet record ''phonenumber'')))),
                 email = cleanEmail (orEmpty (orElseS (kvGet record ''email'')
                     (kvGet record ''mail'')))\<rparr>)"

subsection \<open>Delimited grammar\<close>

text \<open>\<^verbatim>\<open>s.split(d)\<close> for a one-character separator.\<close>

fun split :: "char \<Rightarrow> string \<Rightarrow> string list" where
  "split d [] = [[]]"
| "split d (c # cs) =
     (if c = d then [] # split d cs
      else case split d cs of
             [] \<Rightarrow> [[c]]
           | part # parts \<Rightarrow> (c # part) # parts)"

definition parseDelimitedPayload :: "string \<Rightarrow> qr_record option" where
  "parseDelimitedPayload raw =
     (let trimmed = trim raw
      in if trimmed = [] then None
         else if CHR ''|'' \<notin> set trimmed \<and> CHR '','' \<notin> set trimmed
                 \<and> CHR '';'' \<notin> set trimmed then None
         else let delimiter = (if CHR ''|'' \<in> set trimmed then CHR ''|''
                               else if CHR '','' \<in> set trimmed then CHR '',''
                               else CHR '';'');
                  parts = filter (\<lambda>part. part \<noteq> []) (map trim (split delimiter trimmed))
              in if length parts < 6 then None
                 else Some \<lparr>username = cleanText (parts ! 0), dob = cleanText (parts ! 1),
                            age = cleanText (parts ! 2), gender = normalizeGender (parts ! 3),
                            mobile = cleanPhone (parts ! 4), email = cleanEmail (parts ! 5)\<rparr>)"

subsection \<open>The cascade\<close>

definition parseQrPayload :: "(string \<Rightarrow> json option) \<Rightarrow> string \<Rightarrow> qr_record option" where
  "parseQrPayload jsonParse raw =
     (let trimmed = trim raw
      in if trimmed = [] then None
         else case parseJsonPayload jsonParse trimmed of
                Some jsonRecord \<Rightarrow> Some jsonRecord
              | None \<Rightarrow>
                  (case parseKeyValuePayload trimmed of
                     Some kvRecord \<Rightarrow> Some kvRecord
                   | None \<Rightarrow>
                       (case parseDelimitedPayload trimmed of
                          Some delimitedRecord \<Rightarrow> Some delimitedRecord
                        | None \<Rightarrow> None)))"

section \<open>The record store and the scan handler of the second program\<close>

text \<open>
  Its \<^verbatim>\<open>state\<close> object has one more field, \<^verbatim>\<open>awaitingGesture\<close>. The item that
  \<^verbatim>\<open>localStorage\<close> holds under \<^verbatim>\<open>config.storageKey\<close> is kept beside it: \<^term>\<open>None\<close>
  while nothing has been saved, else the payload of the last \<^verbatim>\<open>saveRecords\<close>, a list
  of entries \<^verbatim>\<open>{ key, ...record }\<close> (what \<^verbatim>\<open>JSON.parse\<close> gives back for the text that
  \<^verbatim>\<open>JSON.stringify\<close> wrote).
\<close>

record stored_state = "qr_record state" +
  awaitingGesture :: bool
  localStorage :: "(string \<times> qr_record) list option"

definition state0_gen :: stored_state where
  "state0_gen = \<lparr>scanning = False, lastValue = None, lastValueTs = 0, records = Map.empty,
                 order = [], statusLine = ([], False), awaitingGesture = False,
                 localStorage = None\<rparr>"

definition recordKey_gen :: "qr_record \<Rightarrow> string" where
  "recordKey_gen r =
     (if email r \<noteq> [] then ''email:'' @ email r
      else if mobile r \<noteq> [] then ''mobile:'' @ mobile r
      else if username r \<noteq> [] \<and> dob r \<noteq> []
           then ''user:'' @ toLowerCase (username r) @ ''|'' @ dob r
      else if username r \<noteq> [] then ''user:'' @ toLowerCase (username r)
      else [])"

text \<open>
  \<^verbatim>\<open>saveRecords\<close>: the payload lists, in the order of \<^verbatim>\<open>state.order\<close>, the keys that
  have a record. \<^verbatim>\<open>localStorage.setItem\<close> may throw (the quota); \<open>canStore\<close> tells
  whether it succeeds.
\<close>

definition snapshot :: "stored_state \<Rightarrow> (string \<times> qr_record) list" where
  "snapshot s =
     concat (map (\<lambda>key. case records s key of None \<Rightarrow> [] | Some r \<Rightarrow> [(key, r)]) (order s))"

definition saveRecords :: "bool \<Rightarrow> stored_state \<Rightarrow> stored_state" where
  "saveRecords canStore s =
     (if canStore then s\<lparr>localStorage := Some (snapshot s)\<rparr>
      else setStatus ''Storage full. Unable to save more records.'' True s)"

text \<open>\<^verbatim>\<open>upsertRecord\<close> of the second program:
  \<^verbatim>\<open>username: record.username || existing.username || ''\<close>, and so on for each field.\<close>

definition upsertRecord_gen :: "bool \<Rightarrow> qr_record \<Rightarrow> stored_state \<Rightarrow> stored_state" where
  "upsertRecord_gen canStore r s =
     (let key = recordKey_gen r
      in if key = [] then setStatus ''Missing unique fields for de-duplication.'' True s
         else let existing = records s key;
                  old = (\<lambda>f. case existing of None \<Rightarrow> [] | Some ex \<Rightarrow> f ex);
                  next = \<lparr>username = (if username r \<noteq> [] then username r else old username),
                          dob = (if dob r \<noteq> [] then dob r else old dob),
                          age = (if age r \<noteq> [] then age r else old age),
                          gender = (if gender r \<noteq> [] then gender r else old gender),
                          mobile = (if mobile r \<noteq> [] then mobile r else old mobile),
                          email = (if email r \<noteq> [] then email r else old email)\<rparr>
              in setStatus (if old username \<noteq> [] \<or> old email \<noteq> [] \<or> old mobile \<noteq> []
                            then ''Record updated.'' else ''Record stored.'') False
                   (saveRecords canStore
                     (s\<lparr>records := (records s)(key \<mapsto> next),
                        order := key # filter (\<lambda>item. item \<noteq> key) (order s)\<rparr>)))"

definition isRecordUsable :: "qr_record option \<Rightarrow> bool" where
  "isRecordUsable record =
     (case record of
        None \<Rightarrow> False
      | Some r \<Rightarrow> username r \<noteq> [] \<or> email r \<noteq> [] \<or> mobile r \<noteq> [])"

definition handleScanResult_gen ::
  "(string \<Rightarrow> json option) \<Rightarrow> int \<Rightarrow> bool \<Rightarrow> string \<Rightarrow> stored_state \<Rightarrow> stored_state" where
  "handleScanResult_gen jsonParse now canStore v s =
     (if lastValue s = Some v \<and> now - lastValueTs s < duplicateCooldownMs then s
      else let s1 = s\<lparr>lastValue := Some v, lastValueTs := now\<rparr>;
               record = parseQrPayload jsonParse v
           in if \<not> isRecordUsable record then setStatus ''QR format not recognized.'' True s1
              else case record of
                     None \<Rightarrow> s1
                   | Some r \<Rightarrow> upsertRecord_gen canStore r s1)"

text \<open>
  \<^verbatim>\<open>loadRecords\<close>: every stored entry with a non-empty key is cleaned, written to the
  map and pushed at the end of the order.
\<close>

definition loadEntry :: "stored_state \<Rightarrow> string \<times> qr_record \<Rightarrow> stored_state" where
  "loadEntry s entry =
     (if fst entry = [] then s
      else let record = \<lparr>username = cleanText (username (snd entry)),
                            dob = cleanText (dob (snd entry)),
                            age = cleanText (age (snd entry)),
                            gender = normalizeGender (gender (snd entry)),
                            mobile = cleanPhone (mobile (snd entry)),
                            email = cleanEmail (email (snd entry))\<rparr>
           in s\<lparr>records := (records s)(fst entry \<mapsto> record), order := order s @ [fst entry]\<rparr>)"

definition loadRecords :: "stored_state \<Rightarrow> stored_state" where
  "loadRecords s = (case localStorage s of None \<Rightarrow> s | Some parsed \<Rightarrow> foldl loadEntry s parsed)"

text \<open>
  \<^verbatim>\<open>init\<close>, which runs once when the page is loaded: the module state is fresh, the
  storage is what the previous page left. The records are loaded only in a secure
  context with a detector.
\<close>

definition init :: "bool \<Rightarrow> bool \<Rightarrow> (string \<times> qr_record) list option \<Rightarrow> stored_state" where
  "init isSecureContext detectorReady stored =
     (let s = state0_gen\<lparr>localStorage := stored\<rparr>
      in if \<not> isSecureContext then setStatus ''Secure context required.'' True s
         else if \<not> detectorReady then setStatus ''Scanner unavailable.'' True s
         else setStatus ''Ready.'' False (loadRecords s))"

section \<open>Reference definitions for the statements\<close>

text \<open>
  The fields the specification speaks of: each byte 0xFF ends a field, and the bytes after
  the last 0xFF are no field.
\<close>

fun delimitedFields :: "byte list \<Rightarrow> byte list list" where
  "delimitedFields [] = []"
| "delimitedFields (b # bs) =
     (if b = 255 then [] # delimitedFields bs
      else case delimitedFields bs of
             [] \<Rightarrow> []
           | f # fs \<Rightarrow> (b # f) # fs)"

text \<open>ISO-8859-1 proper, for the concrete runs below: the byte \<open>n\<close> is the code unit \<open>n\<close>.\<close>

definition decodeLatin1 :: "byte list \<Rightarrow> string" where
  "decodeLatin1 bs = map (\<lambda>b. char_of (unat b)) bs"

definition secure_sample :: "byte list" where
  "secure_sample = [86, 50, 255, 55, 255] @ concat (replicate 14 [65, 255]) @ [66, 66]"

text \<open>
  The reconstruction the specification speaks of, most-significant byte first. The
  program itself never converts bytes back to an integer.
\<close>

definition bytesToBigInt :: "byte list \<Rightarrow> int" where
  "bytesToBigInt bs = foldl (\<lambda>acc b. acc * 256 + uint b) 0 bs"

text \<open>
  The first-success fold of the specification: the grammars of a list are tried in
  order, and the first result that is not \<^term>\<open>None\<close> is returned.
\<close>

fun firstSuccess :: "('a \<Rightarrow> 'b option) list \<Rightarrow> 'a \<Rightarrow> 'b option" where
  "firstSuccess [] x = None"
| "firstSuccess (g # gs) x = (case g x of Some r \<Rightarrow> Some r | None \<Rightarrow> firstSuccess gs x)"

text \<open>Platforms for the concrete runs: a \<^verbatim>\<open>JSON.parse\<close> that throws (as it does on
  text that is no JSON), and a browser without \<^verbatim>\<open>DecompressionStream\<close>.\<close>

definition jsonParse_throws :: "string \<Rightarrow> json option" where
  "jsonParse_throws raw = None"

definition env_sample :: env where
  "env_sample = \<lparr>parseFromString = (\<lambda>xmlText. Node ''parsererror'' [] []),
                  hasDecompressionStream = False,
                  decompress = (\<lambda>bytes. None),
                  textDecoder = decodeLatin1\<rparr>"

text \<open>A markup payload with a recognized root element, the document it parses to, and
  a platform whose parser knows this one text (any other text is reported malformed).\<close>

definition markup_sample :: string where
  "markup_sample = ''<PrintLetterBarcodeData uid='1234' name='A' gender='M'/>''"

definition print_letter_sample :: node where
  "print_letter_sample =
     Node ''PrintLetterBarcodeData'' [(''uid'', ''1234''), (''name'', ''A''), (''gender'', ''M'')] []"

definition env_markup :: env where
  "env_markup = \<lparr>parseFromString = (\<lambda>xmlText. if xmlText = markup_sample then print_letter_sample
                                               else Node ''parsererror'' [] []),
                  hasDecompressionStream = True,
                  decompress = (\<lambda>bytes. None),
                  textDecoder = decodeLatin1\<rparr>"

text \<open>A key-value payload for the concrete runs.\<close>

definition jane_kv :: string where
  "jane_kv = ''name=Jane Doe; dob=1990-01-01; email=jane@x.com''"

text \<open>The two structures of the store agree: no key twice in the order, and the keys of
  the order are the keys of the map.\<close>

definition lockstep :: "(string \<rightharpoonup> 'r) \<Rightarrow> string list \<Rightarrow> bool" where
  "lockstep m ks = (distinct ks \<and> set ks = dom m)"

text \<open>Modelled from the spec: \<open>clear()\<close>, which empties both structures at once. The
  programs under src/ have no function that empties the record store (\<open>clearResults\<close> of
  the third program clears a scan history).\<close>

definition clear :: "('r, 'x) state_scheme \<Rightarrow> ('r, 'x) state_scheme" where
  "clear s = s\<lparr>records := Map.empty, order := []\<rparr>"

text \<open>
  What can happen to the store of \<^verbatim>\<open>src/app.js\<close>: a record is upserted, a scan result is
  handled, the store is cleared. A run starts from the initial \<^verbatim>\<open>state\<close>.
\<close>

datatype store_op = Upsert string jsobj | Scan env int string string | Clear

fun apply_op :: "store_op \<Rightarrow> jsobj state \<Rightarrow> jsobj state" where
  "apply_op (Upsert stamp r) s = upsertRecord stamp r s"
| "apply_op (Scan e now stamp v) s = handleScanResult e now stamp v s"
| "apply_op Clear s = clear s"

definition run :: "store_op list \<Rightarrow> jsobj state" where
  "run ops = foldl (\<lambda>s op. apply_op op s) state0 ops"

text \<open>
  The second program saves the store after each upsert and restores it when the page is
  loaded again: \<open>Restore\<close> is \<^verbatim>\<open>init\<close> on a fresh state with the storage the previous
  page left.
\<close>

datatype store_op_gen =
  Upsert_gen bool qr_record
  | Scan_gen "string \<Rightarrow> json option" int bool string
  | Restore bool bool
  | Clear_gen

fun apply_op_gen :: "store_op_gen \<Rightarrow> stored_state \<Rightarrow> stored_state" where
  "apply_op_gen (Upsert_gen canStore r) s = upsertRecord_gen canStore r s"
| "apply_op_gen (Scan_gen jsonParse now canStore v) s = handleScanResult_gen jsonParse now canStore v s"
| "apply_op_gen (Restore isSecureContext detectorReady) s = init isSecureContext detectorReady (localStorage s)"
| "apply_op_gen Clear_gen s = clear s"

definition run_gen :: "store_op_gen list \<Rightarrow> stored_state" where
  "run_gen ops = foldl (\<lambda>s op. apply_op_gen op s) state0_gen ops"

text \<open>The second program: the invariant also says that the stored payload lists no key twice.\<close>

definition stored_ok :: "stored_state \<Rightarrow> bool" where
  "stored_ok s =
     (lockstep (records s) (order s)
      \<and> (case localStorage s of None \<Rightarrow> True | Some parsed \<Rightarrow> distinct (map fst parsed)))"

text \<open>Records for the concrete runs.\<close>

definition print_letter_nameless :: node where
  "print_letter_nameless = Node ''PrintLetterBarcodeData'' [(''uid'', ''1234''), (''gender'', ''M'')] []"

definition offline_sample :: node where
  "offline_sample = Node ''OfflinePaperlessKyc'' [(''referenceId'', ''5678'')]
     [Node ''UidData'' [] [Node ''Poi'' [(''name'', ''B''), (''gender'', ''F'')] []]]"

definition oky_sample :: node where
  "oky_sample = Node ''OKY'' [(''r'', ''42''), (''n'', ''C''), (''g'', ''T''), (''gender'', ''M'')] []"

definition jane :: qr_record where
  "jane = \<lparr>username = ''Jane Doe'', dob = ''1990-01-01'', age = ''34'', gender = ''Female'',
            mobile = [], email = ''jane@x.com''\<rparr>"

definition jane_again :: qr_record where
  "jane_again = \<lparr>username = [], dob = [], age = [], gender = [], mobile = ''9990001111'',
                  email = ''jane@x.com''\<rparr>"

definition ravi :: qr_record where
  "ravi = \<lparr>username = ''Ravi'', dob = [], age = [], gender = [], mobile = [], email = []\<rparr>"

definition ops_sample :: "store_op_gen list" where
  "ops_sample = [Upsert_gen True jane, Upsert_gen True ravi, Restore True True,
                 Upsert_gen False jane_again, Clear_gen, Restore True True]"

text \<open>The gender cell of \<^verbatim>\<open>renderRecords\<close> (src/app.js):
  \<^verbatim>\<open>genderCell.textContent = normalizeGender(record.gender) || '-'\<close>.\<close>

definition genderCell :: "jsobj \<Rightarrow> string" where
  "genderCell r =
     (if normalizeGender (field r ''gender'') \<noteq> [] then normalizeGender (field r ''gender'')
      else ''-'')"

definition print_letter_spaced :: node where
  "print_letter_spaced = Node ''PrintLetterBarcodeData'' [(''uid'', ''1234''), (''name'', '' A  B '')] []"

text \<open>
  What the uniform cleaning step leaves: no whitespace at either end, no whitespace other
  than the space character, and no two whitespace characters in a row.
\<close>

fun noSpaceRun :: "string \<Rightarrow> bool" where
  "noSpaceRun (a # b # cs) = (\<not> (isSpace a \<and> isSpace b) \<and> noSpaceRun (b # cs))"
| "noSpaceRun cs = True"

definition isClean :: "string \<Rightarrow> bool" where
  "isClean s =
     ((s = [] \<or> (\<not> isSpace (hd s) \<and> \<not> isSpace (last s)))
      \<and> list_all (\<lambda>c. isSpace c \<longrightarrow> c = CHR '' '') s
      \<and> noSpaceRun s)"

section \<open>Secure format: the fields and the bytes\<close>

subsection \<open>The sixteen fields\<close>

lemma delimitedFields_none: "255 \<notin> set p \<Longrightarrow> delimitedFields p = []"
  by (induction p) auto

lemma delimitedFields_append:
  "255 \<notin> set p \<Longrightarrow> delimitedFields (p @ 255 # ys) = p # delimitedFields ys"
  by (induction p) auto

lemma delimitedFields_count:
  "length (delimitedFields bs) = length (filter (\<lambda>b. b = 255) bs)"
  by (induction bs) (auto split: list.splits)

lemma slice_Suc:
  "start \<le> i \<Longrightarrow> i < length xs \<Longrightarrow> slice xs start (Suc i) = slice xs start i @ [xs ! i]"
proof -
  assume a: "start \<le> i" and b: "i < length xs"
  have "take (Suc (i - start)) (drop start xs) = take (i - start) (drop start xs) @ [drop start xs ! (i - start)]"
    using a b by (simp add: take_Suc_conv_app_nth)
  moreover have "drop start xs ! (i - start) = xs ! i" using a b by simp
  moreover have "Suc i - start = Suc (i - start)" using a by simp
  ultimately show ?thesis by (simp add: slice_def)
qed

lemma drop_as_slice:
  "start \<le> i \<Longrightarrow> i < length xs \<Longrightarrow> drop start xs = slice xs start i @ xs ! i # drop (Suc i) xs"
proof -
  assume a: "start \<le> i" and b: "i < length xs"
  have "drop start xs = take (i - start) (drop start xs) @ drop (i - start) (drop start xs)"
    by (rule append_take_drop_id [symmetric])
  moreover have "drop (i - start) (drop start xs) = drop i xs" using a by simp
  moreover have "drop i xs = xs ! i # drop (Suc i) xs" using b by (simp add: Cons_nth_drop_Suc)
  ultimately show ?thesis by (simp add: slice_def)
qed

lemma secureFields_loop_correct:
  "start \<le> i \<Longrightarrow> 255 \<notin> set (slice bytes start i) \<Longrightarrow> length acc \<le> 16 \<Longrightarrow>
     secureFields_loop bytes i start acc
       = acc @ take (16 - length acc) (delimitedFields (drop start bytes))"
proof (induction bytes i start acc rule: secureFields_loop.induct)
  case (1 bytes i start acc)
  show ?case
  proof (cases "i < length bytes \<and> length acc < 16")
    case False
    have stop: "secureFields_loop bytes i start acc = acc"
      using False by (subst secureFields_loop.simps) auto
    show ?thesis
    proof (cases "i < length bytes")
      case True
      with False "1.prems" have "length acc = 16" by simp
      then show ?thesis using stop by simp
    next
      case False
      then have "slice bytes start i = drop start bytes" by (simp add: slice_def)
      with "1.prems" have "delimitedFields (drop start bytes) = []"
        by (simp add: delimitedFields_none)
      then show ?thesis using stop by simp
    qed
  next
    case True
    then have lt: "i < length bytes" and room: "length acc < 16" by simp_all
    show ?thesis
    proof (cases "bytes ! i = 255")
      case True
      have step: "secureFields_loop bytes i start acc
          = secureFields_loop bytes (i + 1) (i + 1) (acc @ [slice bytes start i])"
        using lt room True by (subst secureFields_loop.simps) simp
      have ih: "secureFields_loop bytes (i + 1) (i + 1) (acc @ [slice bytes start i])
          = (acc @ [slice bytes start i])
              @ take (16 - length (acc @ [slice bytes start i]))
                  (delimitedFields (drop (i + 1) bytes))"
        using "1.IH"(1) lt room True by (simp add: slice_def)
      have "drop start bytes = slice bytes start i @ 255 # drop (Suc i) bytes"
        using drop_as_slice [OF "1.prems"(1) lt] True by simp
      then have "delimitedFields (drop start bytes)
          = slice bytes start i # delimitedFields (drop (Suc i) bytes)"
        using "1.prems"(2) by (simp add: delimitedFields_append)
      moreover have "16 - length acc = Suc (16 - length (acc @ [slice bytes start i]))"
        using room by simp
      ultimately show ?thesis using step ih by simp
    next
      case False
      have step: "secureFields_loop bytes i start acc
          = secureFields_loop bytes (i + 1) start acc"
        using lt room False by (subst secureFields_loop.simps) simp
      have "255 \<notin> set (slice bytes start (i + 1))"
        using slice_Suc [OF "1.prems"(1) lt] "1.prems"(2) False by simp
      then have "secureFields_loop bytes (i + 1) start acc
          = acc @ take (16 - length acc) (delimitedFields (drop start bytes))"
        using "1.IH"(2) lt room False "1.prems" by simp
      then show ?thesis using step by simp
    qed
  qed
qed

lemma secureFields: "secureFields_loop bytes 0 0 [] = take 16 (delimitedFields bytes)"
  using secureFields_loop_correct [of 0 0 bytes "[]"] by (simp add: slice_def)

text \<open>
  C3. For every byte sequence the scanning loop of \<open>parseSecureQrBytes\<close> returns the
  first sixteen fields delimited by 0xFF (it stops once sixteen are collected); the number
  of delimited fields is the number of 0xFF bytes; and the function returns no record
  exactly when fewer than sixteen fields are found, or the first field (the format
  indicator) or the second (the reference id) is empty after decoding and cleaning.
  This holds for every text decoder.
\<close>

theorem parseSecureQrBytes_fields:
  "secureFields_loop bytes 0 0 [] = take 16 (delimitedFields bytes)
   \<and> length (delimitedFields bytes) = length (filter (\<lambda>b. b = 255) bytes)
   \<and> (parseSecureQrBytes decode bytes = None \<longleftrightarrow>
        length (delimitedFields bytes) < 16
        \<or> cleanText (decode (delimitedFields bytes ! 0)) = []
        \<or> cleanText (decode (delimitedFields bytes ! 1)) = [])"
proof -
  have loop: "secureFields_loop bytes 0 0 [] = take 16 (delimitedFields bytes)"
    by (rule secureFields)
  have count: "length (delimitedFields bytes) = length (filter (\<lambda>b. b = 255) bytes)"
    by (rule delimitedFields_count)
  have fails: "parseSecureQrBytes decode bytes = None \<longleftrightarrow>
        length (delimitedFields bytes) < 16
        \<or> cleanText (decode (delimitedFields bytes ! 0)) = []
        \<or> cleanText (decode (delimitedFields bytes ! 1)) = []"
  proof (cases "length (delimitedFields bytes) < 16")
    case True
    then show ?thesis by (simp add: parseSecureQrBytes_def loop)
  next
    case False
    then show ?thesis by (simp add: parseSecureQrBytes_def loop Let_def)
  qed
  from loop count fails show ?thesis by blast
qed

theorem parseSecureQrBytes_fields_witness:
  "length (delimitedFields secure_sample) = 16
   \<and> parseSecureQrBytes decodeLatin1 secure_sample \<noteq> None
   \<and> length (delimitedFields (take 31 secure_sample)) = 15
   \<and> parseSecureQrBytes decodeLatin1 (take 31 secure_sample) = None
   \<and> parseSecureQrBytes decodeLatin1 ([86, 255, 32, 32, 255] @ drop 5 secure_sample) = None"
proof -
  have full: "length (delimitedFields secure_sample) = 16" by code_simp
  have f0: "cleanText (decodeLatin1 (delimitedFields secure_sample ! 0)) \<noteq> []" by code_simp
  have f1: "cleanText (decodeLatin1 (delimitedFields secure_sample ! 1)) \<noteq> []" by code_simp
  have short: "length (delimitedFields (take 31 secure_sample)) = 15" by code_simp
  have blank: "cleanText (decodeLatin1
      (delimitedFields ([86, 255, 32, 32, 255] @ drop 5 secure_sample) ! 1)) = []"
    by code_simp
  from parseSecureQrBytes_fields [of secure_sample decodeLatin1] full f0 f1
  have ok: "parseSecureQrBytes decodeLatin1 secure_sample \<noteq> None" by simp
  from parseSecureQrBytes_fields [of "take 31 secure_sample" decodeLatin1] short
  have few: "parseSecureQrBytes decodeLatin1 (take 31 secure_sample) = None" by simp
  from parseSecureQrBytes_fields
    [of "[86, 255, 32, 32, 255] @ drop 5 secure_sample" decodeLatin1] blank
  have empty: "parseSecureQrBytes decodeLatin1 ([86, 255, 32, 32, 255] @ drop 5 secure_sample) = None"
    by blast
  from full ok short few empty show ?thesis by blast
qed

subsection \<open>Big-integer round trip\<close>

lemma foldl_bytes_shift:
  "foldl (\<lambda>acc b. acc * 256 + uint b) a (bs :: byte list)
     = a * 256 ^ length bs + foldl (\<lambda>acc b. acc * 256 + uint b) 0 bs"
proof (induction bs arbitrary: a)
  case Nil
  show ?case by simp
next
  case (Cons b bs)
  have "foldl (\<lambda>acc b. acc * 256 + uint b) a (b # bs)
      = (a * 256 + uint b) * 256 ^ length bs + foldl (\<lambda>acc b. acc * 256 + uint b) 0 bs"
    using Cons.IH [of "a * 256 + uint b"] by simp
  moreover have "foldl (\<lambda>acc b. acc * 256 + uint b) 0 (b # bs)
      = uint b * 256 ^ length bs + foldl (\<lambda>acc b. acc * 256 + uint b) 0 bs"
    using Cons.IH [of "uint b"] by simp
  ultimately show ?case by (simp add: distrib_right)
qed

lemma bytesToBigInt_Cons:
  "bytesToBigInt (b # bs) = uint b * 256 ^ length bs + bytesToBigInt bs"
  unfolding bytesToBigInt_def using foldl_bytes_shift [of "uint b" bs] by simp

lemma low_byte: "uint (word_of_int (t AND 0xff) :: byte) = t mod 256"
proof -
  have "t AND 0xff = take_bit 8 t"
    by (simp add: take_bit_eq_mask mask_eq_exp_minus_1)
  then show ?thesis by (simp add: uint_word_of_int take_bit_eq_mod)
qed

lemma bigIntToBytes_loop_value:
  "0 \<le> t \<Longrightarrow>
     bytesToBigInt (bigIntToBytes_loop t acc) = t * 256 ^ length acc + bytesToBigInt acc"
proof (induction t acc rule: bigIntToBytes_loop.induct)
  case (1 temp bytes)
  show ?case
  proof (cases "temp > 0")
    case True
    have nn: "0 \<le> drop_bit 8 temp" using True by (simp add: drop_bit_eq_div)
    have parts: "temp = (temp div 256) * 256 + temp mod 256" by simp
    have "bytesToBigInt (bigIntToBytes_loop temp bytes)
        = bytesToBigInt (bigIntToBytes_loop (drop_bit 8 temp) (word_of_int (temp AND 0xff) # bytes))"
      using True by (subst bigIntToBytes_loop.simps) simp
    also have "\<dots> = drop_bit 8 temp * 256 ^ length (word_of_int (temp AND 0xff) # bytes)
                 + bytesToBigInt ((word_of_int (temp AND 0xff) :: byte) # bytes)"
      using "1.IH" [OF True nn] .
    also have "\<dots> = (temp div 256) * 256 * 256 ^ length bytes
                 + (temp mod 256) * 256 ^ length bytes + bytesToBigInt bytes"
      by (simp add: bytesToBigInt_Cons low_byte drop_bit_eq_div)
    also have "\<dots> = ((temp div 256) * 256 + temp mod 256) * 256 ^ length bytes
                 + bytesToBigInt bytes"
      by (simp only: distrib_right)
    also have "\<dots> = temp * 256 ^ length bytes + bytesToBigInt bytes"
      using parts by simp
    finally show ?thesis .
  next
    case False
    with "1.prems" have "temp = 0" by simp
    then show ?thesis by (subst bigIntToBytes_loop.simps) simp
  qed
qed

text \<open>The first byte of the result is the last one the loop writes, and it is not zero.\<close>

lemma bigIntToBytes_loop_hd:
  "0 < t \<Longrightarrow> hd (bigIntToBytes_loop t acc) \<noteq> 0"
proof (induction t acc rule: bigIntToBytes_loop.induct)
  case (1 temp bytes)
  show ?case
  proof (cases "drop_bit 8 temp > 0")
    case True
    have "bigIntToBytes_loop temp bytes
        = bigIntToBytes_loop (drop_bit 8 temp) (word_of_int (temp AND 0xff) # bytes)"
      using "1.prems" by (subst bigIntToBytes_loop.simps) simp
    then show ?thesis using "1.IH" [OF "1.prems" True] by simp
  next
    case False
    then have small: "temp < 256" using "1.prems" by (simp add: drop_bit_eq_div)
    have "bigIntToBytes_loop temp bytes = (word_of_int (temp AND 0xff) :: byte) # bytes"
      using "1.prems" False
      by (subst bigIntToBytes_loop.simps, subst bigIntToBytes_loop.simps) simp
    moreover have "uint (word_of_int (temp AND 0xff) :: byte) = temp"
      using small "1.prems" by (simp add: low_byte)
    then have "(word_of_int (temp AND 0xff) :: byte) \<noteq> 0" using "1.prems" by auto
    ultimately show ?thesis by simp
  qed
qed

text \<open>
  C4. For every non-negative integer \<open>v\<close>, rebuilding an integer from the bytes of
  \<open>bigIntToBytes v\<close>, most-significant byte first, gives \<open>v\<close> back; zero becomes the
  single byte 0x00; and the sequence is minimal: unless \<open>v\<close> is zero its first byte is
  not zero.
\<close>

theorem bigIntToBytes_roundtrip:
  "0 \<le> v \<Longrightarrow>
     bytesToBigInt (bigIntToBytes v) = v
     \<and> bigIntToBytes 0 = [0]
     \<and> (v = 0 \<or> hd (bigIntToBytes v) \<noteq> 0)"
proof -
  assume nonneg: "0 \<le> v"
  have value_back: "bytesToBigInt (bigIntToBytes v) = v"
    using bigIntToBytes_loop_value [OF nonneg, of "[]"]
    by (simp add: bigIntToBytes_def bytesToBigInt_def)
  have zero: "bigIntToBytes 0 = [0]"
    by (simp add: bigIntToBytes_def)
  have minimal: "v = 0 \<or> hd (bigIntToBytes v) \<noteq> 0"
  proof (cases "v = 0")
    case True
    then show ?thesis by simp
  next
    case False
    with nonneg have "0 < v" by simp
    then show ?thesis using False by (simp add: bigIntToBytes_def bigIntToBytes_loop_hd)
  qed
  from value_back zero minimal show ?thesis by blast
qed

theorem bigIntToBytes_roundtrip_witness:
  "(0::int) \<le> 66051 \<and> bytesToBigInt (bigIntToBytes 66051) = 66051
   \<and> bigIntToBytes 66051 = [1, 2, 3]"
proof -
  have bytes: "bigIntToBytes 66051 = [1, 2, 3]"
    by (simp add: bigIntToBytes_def bigIntToBytes_loop.simps drop_bit_eq_div)
  from bigIntToBytes_roundtrip [of 66051] bytes show ?thesis by simp
qed

section \<open>The decoders\<close>

subsection \<open>The cascade\<close>

text \<open>
  C6. Both decoders are first-success folds over a fixed order of grammars, applied to
  the trimmed string: markup, then Secure format in \<open>src/app.js\<close>; JSON, key-value,
  delimited in the second program. The record is that of the first grammar that
  succeeds; when the markup grammar succeeds the result does not depend on the platform's
  decompression or text decoder, which only the later grammar reads.
\<close>

theorem cascade_first_success:
  "parseAadhaarPayload e raw =
     (if trim raw = [] then None
      else firstSuccess [parseXmlPayload (parseFromString e), parseSecureQr e] (trim raw))
   \<and> parseQrPayload jp raw =
     (if trim raw = [] then None
      else firstSuccess [parseJsonPayload jp, parseKeyValuePayload, parseDelimitedPayload] (trim raw))
   \<and> (parseXmlPayload (parseFromString e) (trim raw) = Some r \<longrightarrow>
        parseAadhaarPayload (e\<lparr>hasDecompressionStream := h, decompress := d, textDecoder := t\<rparr>) raw
          = Some r)
   \<and> (trim raw \<noteq> [] \<and> parseJsonPayload jp (trim raw) = Some q \<longrightarrow>
        parseQrPayload jp raw = Some q)
   \<and> (trim raw \<noteq> [] \<and> parseJsonPayload jp (trim raw) = None
        \<and> parseKeyValuePayload (trim raw) = Some q \<longrightarrow> parseQrPayload jp raw = Some q)"
proof -
  have aadhaar: "parseAadhaarPayload e raw =
     (if trim raw = [] then None
      else firstSuccess [parseXmlPayload (parseFromString e), parseSecureQr e] (trim raw))"
    by (simp add: parseAadhaarPayload_def Let_def split: option.splits)
  have generic: "parseQrPayload jp raw =
     (if trim raw = [] then None
      else firstSuccess [parseJsonPayload jp, parseKeyValuePayload, parseDelimitedPayload] (trim raw))"
    by (simp add: parseQrPayload_def Let_def split: option.splits)
  have xml_first: "parseXmlPayload (parseFromString e) (trim raw) = Some r \<longrightarrow>
        parseAadhaarPayload (e\<lparr>hasDecompressionStream := h, decompress := d, textDecoder := t\<rparr>) raw
          = Some r"
  proof
    assume ok: "parseXmlPayload (parseFromString e) (trim raw) = Some r"
    then have "trim raw \<noteq> []" by (auto simp: parseXmlPayload_def extractXml_def)
    with ok show "parseAadhaarPayload
        (e\<lparr>hasDecompressionStream := h, decompress := d, textDecoder := t\<rparr>) raw = Some r"
      by (simp add: parseAadhaarPayload_def Let_def)
  qed
  have json_first: "trim raw \<noteq> [] \<and> parseJsonPayload jp (trim raw) = Some q \<longrightarrow>
        parseQrPayload jp raw = Some q"
    by (simp add: parseQrPayload_def Let_def)
  have kv_second: "trim raw \<noteq> [] \<and> parseJsonPayload jp (trim raw) = None
        \<and> parseKeyValuePayload (trim raw) = Some q \<longrightarrow> parseQrPayload jp raw = Some q"
    by (simp add: parseQrPayload_def Let_def)
  from aadhaar generic xml_first json_first kv_second show ?thesis by blast
qed

theorem cascade_first_success_witness:
  "parseXmlPayload (parseFromString env_markup) (trim markup_sample)
     = Some (parsePrintLetter print_letter_sample)
   \<and> parseAadhaarPayload
       (env_markup\<lparr>hasDecompressionStream := False, decompress := Some, textDecoder := decodeLatin1\<rparr>)
       markup_sample
     = Some (parsePrintLetter print_letter_sample)
   \<and> trim jane_kv \<noteq> []
   \<and> parseJsonPayload jsonParse_throws (trim jane_kv) = None
   \<and> parseKeyValuePayload (trim jane_kv)
       = Some \<lparr>username = ''Jane Doe'', dob = ''1990-01-01'', age = [], gender = [], mobile = [],
                email = ''jane@x.com''\<rparr>
   \<and> parseQrPayload jsonParse_throws jane_kv
       = Some \<lparr>username = ''Jane Doe'', dob = ''1990-01-01'', age = [], gender = [], mobile = [],
                email = ''jane@x.com''\<rparr>"
proof -
  let ?jane = "\<lparr>username = ''Jane Doe'', dob = ''1990-01-01'', age = [], gender = [], mobile = [],
                email = ''jane@x.com''\<rparr>"
  have ne_xml: "extractXml (trim markup_sample) = Some markup_sample" by code_simp
  have some: "markup_sample \<noteq> []" by code_simp
  have xml: "parseXmlPayload (parseFromString env_markup) (trim markup_sample)
      = Some (parsePrintLetter print_letter_sample)"
    unfolding parseXmlPayload_def ne_xml using some
    by (simp add: env_markup_def print_letter_sample_def doc_getElementsByTagName_def)
  have ne: "trim jane_kv \<noteq> []" by code_simp
  have json: "parseJsonPayload jsonParse_throws (trim jane_kv) = None"
    by (simp add: parseJsonPayload_def jsonParse_throws_def)
  have kv: "parseKeyValuePayload (trim jane_kv) = Some ?jane" by code_simp
  from cascade_first_success [where e = env_markup and raw = markup_sample and jp = jsonParse_throws
      and r = "parsePrintLetter print_letter_sample" and h = False and d = Some
      and t = decodeLatin1 and q = ?jane] xml
  have a: "parseAadhaarPayload
       (env_markup\<lparr>hasDecompressionStream := False, decompress := Some, textDecoder := decodeLatin1\<rparr>)
       markup_sample = Some (parsePrintLetter print_letter_sample)" by blast
  from cascade_first_success [where e = env_markup and raw = jane_kv and jp = jsonParse_throws
      and r = "parsePrintLetter print_letter_sample" and h = False and d = Some
      and t = decodeLatin1 and q = ?jane] ne json kv
  have b: "parseQrPayload jsonParse_throws jane_kv = Some ?jane" by blast
  from xml a ne json kv b show ?thesis by blast
qed

subsection \<open>Gender normalization\<close>

lemma toLowerCase_char_is:
  assumes "97 \<le> (of_char l :: nat)" and "(of_char l :: nat) \<le> 122"
  shows "toLowerCase_char c = l
         \<longleftrightarrow> (of_char c :: nat) = of_char l \<or> (of_char c :: nat) + 32 = of_char l"
proof (cases "(65 \<le> (of_char c :: nat) \<and> (of_char c :: nat) \<le> 90)
               \<or> (192 \<le> (of_char c :: nat) \<and> (of_char c :: nat) \<le> 222
                   \<and> (of_char c :: nat) \<noteq> 215)")
  case True
  then have low: "toLowerCase_char c = char_of ((of_char c :: nat) + 32)"
    by (simp add: toLowerCase_char_def Let_def)
  have small: "((of_char c :: nat) + 32) mod 256 = (of_char c :: nat) + 32"
    using True by auto
  have "char_of ((of_char c :: nat) + 32) = l \<longleftrightarrow> (of_char c :: nat) + 32 = of_char l"
    using small by (simp add: char_of_eq_iff take_bit_eq_mod)
  then show ?thesis using low True assms by auto
next
  case False
  then have "toLowerCase_char c = c" by (auto simp: toLowerCase_char_def Let_def)
  moreover have "c = l \<longleftrightarrow> (of_char c :: nat) = of_char l" by simp
  ultimately show ?thesis using False assms by auto
qed

lemma char_by_code: "c = d \<longleftrightarrow> (of_char c :: nat) = of_char d"
  by simp

lemma lower_m: "toLowerCase_char c = CHR ''m'' \<longleftrightarrow> c = CHR ''m'' \<or> c = CHR ''M''"
  using toLowerCase_char_is [of "CHR ''m''" c]
  by (simp add: char_by_code [of c "CHR ''m''"] char_by_code [of c "CHR ''M''"])

lemma lower_f: "toLowerCase_char c = CHR ''f'' \<longleftrightarrow> c = CHR ''f'' \<or> c = CHR ''F''"
  using toLowerCase_char_is [of "CHR ''f''" c]
  by (simp add: char_by_code [of c "CHR ''f''"] char_by_code [of c "CHR ''F''"])

lemma lower_t: "toLowerCase_char c = CHR ''t'' \<longleftrightarrow> c = CHR ''t'' \<or> c = CHR ''T''"
  using toLowerCase_char_is [of "CHR ''t''" c]
  by (simp add: char_by_code [of c "CHR ''t''"] char_by_code [of c "CHR ''T''"])

lemma normalizeGender_prefix:
  "normalizeGender v =
     (case trim v of
        [] \<Rightarrow> []
      | c # rest \<Rightarrow>
          if c = CHR ''m'' \<or> c = CHR ''M'' then ''Male''
          else if c = CHR ''f'' \<or> c = CHR ''F'' then ''Female''
          else if c = CHR ''t'' \<or> c = CHR ''T'' then ''Transgender''
          else trim v)"
  by (cases "trim v")
     (simp_all add: normalizeGender_def Let_def startsWith_def toLowerCase_def
        lower_m lower_f lower_t)

subsection \<open>What the cleaning step returns\<close>

lemma replaceSpaceRuns_single:
  "list_all (\<lambda>c. isSpace c \<longrightarrow> c = CHR '' '') (replaceSpaceRuns '' '' s)
   \<and> noSpaceRun (replaceSpaceRuns '' '' s)"
proof (induction "'' ''" s rule: replaceSpaceRuns.induct)
  case 1
  show ?case by simp
next
  case (2 c cs)
  show ?case
  proof (cases "isSpace c")
    case True
    let ?rest = "dropWhile isSpace cs"
    have ih: "list_all (\<lambda>c. isSpace c \<longrightarrow> c = CHR '' '') (replaceSpaceRuns '' '' ?rest)
        \<and> noSpaceRun (replaceSpaceRuns '' '' ?rest)"
      using 2(1) True by simp
    have run: "noSpaceRun (CHR '' '' # replaceSpaceRuns '' '' ?rest)"
    proof (cases ?rest)
      case Nil
      show ?thesis by (simp only: Nil replaceSpaceRuns.simps noSpaceRun.simps)
    next
      case (Cons d ds)
      then have "\<not> isSpace d" using hd_dropWhile [of isSpace cs] by auto
      then show ?thesis using ih Cons by simp
    qed
    show ?thesis using True ih run by simp
  next
    case False
    have ih: "list_all (\<lambda>c. isSpace c \<longrightarrow> c = CHR '' '') (replaceSpaceRuns '' '' cs)
        \<and> noSpaceRun (replaceSpaceRuns '' '' cs)"
      using 2(2) False by simp
    have "noSpaceRun (c # replaceSpaceRuns '' '' cs)"
      using ih False by (cases "replaceSpaceRuns '' '' cs") simp_all
    then show ?thesis using False ih by simp
  qed
qed

lemma noSpaceRun_drop: "noSpaceRun xs \<Longrightarrow> noSpaceRun (drop n xs)"
proof (induction n arbitrary: xs)
  case 0
  then show ?case by simp
next
  case (Suc n)
  show ?case
  proof (cases xs)
    case Nil
    then show ?thesis by simp
  next
    case (Cons a as)
    with Suc.prems have "noSpaceRun as" by (cases as) simp_all
    then show ?thesis using Suc.IH Cons by simp
  qed
qed

lemma noSpaceRun_take: "noSpaceRun xs \<Longrightarrow> noSpaceRun (take n xs)"
proof (induction xs arbitrary: n rule: noSpaceRun.induct)
  case (1 a b cs)
  show ?case
  proof (cases n)
    case 0
    then show ?thesis by simp
  next
    case (Suc m)
    have "noSpaceRun (take m (b # cs))" using 1 by simp
    then show ?thesis using 1(2) Suc by (cases m) simp_all
  qed
qed (simp_all add: take_Cons')

lemma rev_dropWhile_rev:
  "rev (dropWhile P (rev ys)) = take (length ys - length (takeWhile P (rev ys))) ys"
proof -
  define k where "k = length (takeWhile P (rev ys))"
  have "dropWhile P (rev ys) = drop k (rev ys)"
    unfolding k_def by (rule dropWhile_eq_drop)
  then have "rev (dropWhile P (rev ys)) = rev (drop k (rev ys))" by (rule arg_cong)
  also have "\<dots> = take (length ys - k) ys" by (simp add: rev_drop)
  finally show ?thesis unfolding k_def .
qed

lemma trim_sublist: "\<exists>m n. trim s = take n (drop m s)"
proof -
  have "dropWhile isSpace s = drop (length (takeWhile isSpace s)) s"
    by (rule dropWhile_eq_drop)
  then have "trim s = take (length (dropWhile isSpace s)
        - length (takeWhile isSpace (rev (dropWhile isSpace s))))
      (drop (length (takeWhile isSpace s)) s)"
    unfolding trim_def rev_dropWhile_rev by (rule arg_cong)
  then show ?thesis by blast
qed

lemma trim_ends:
  assumes "trim s \<noteq> []"
  shows "\<not> isSpace (hd (trim s)) \<and> \<not> isSpace (last (trim s))"
proof -
  let ?a = "dropWhile isSpace s"
  let ?b = "dropWhile isSpace (rev ?a)"
  from assms have b: "?b \<noteq> []" by (simp add: trim_def)
  have a: "?a \<noteq> []"
  proof
    assume "?a = []"
    then have "?b = dropWhile isSpace (rev [])" by (rule arg_cong)
    with b show False by simp
  qed
  have "last (trim s) = hd ?b" using b by (simp add: trim_def last_rev)
  moreover have "\<not> isSpace (hd ?b)" using b hd_dropWhile by blast
  moreover have "hd (trim s) = last ?b" using b by (simp add: trim_def hd_rev)
  moreover have "last ?b = last (rev ?a)"
  proof -
    have "rev ?a = takeWhile isSpace (rev ?a) @ ?b" by simp
    then show ?thesis using b by (metis last_appendR)
  qed
  moreover have "last (rev ?a) = hd ?a" using a by (simp add: last_rev)
  moreover have "\<not> isSpace (hd ?a)" using a hd_dropWhile by blast
  ultimately show ?thesis by simp
qed

lemma cleanText_isClean: "isClean (cleanText v)"
proof -
  let ?w = "replaceSpaceRuns '' '' v"
  obtain m n where sub: "trim ?w = take n (drop m ?w)" using trim_sublist by blast
  have "list_all (\<lambda>c. isSpace c \<longrightarrow> c = CHR '' '') ?w" and run: "noSpaceRun ?w"
    using replaceSpaceRuns_single [of v] by simp_all
  then have "\<forall>c\<in>set ?w. isSpace c \<longrightarrow> c = CHR '' ''" by (simp add: list_all_iff)
  moreover have "set (take n (drop m ?w)) \<subseteq> set ?w"
    by (meson set_take_subset set_drop_subset subset_trans)
  ultimately have single: "list_all (\<lambda>c. isSpace c \<longrightarrow> c = CHR '' '') (trim ?w)"
    unfolding sub list_all_iff by blast
  have "noSpaceRun (trim ?w)"
    unfolding sub using run by (simp add: noSpaceRun_drop noSpaceRun_take)
  then show ?thesis
    using single trim_ends [of ?w] by (auto simp: isClean_def cleanText_def)
qed

subsection \<open>What the decoders clean\<close>

lemma parseJsonPayload_cleaned:
  "parseJsonPayload jp raw = Some q \<Longrightarrow>
     \<exists>u d a g m em. q = \<lparr>username = cleanText u, dob = cleanText d, age = cleanText a,
        gender = normalizeGender g, mobile = cleanPhone m, email = cleanEmail em\<rparr>"
  by (auto simp: parseJsonPayload_def split: option.splits if_splits)

lemma parseKeyValuePayload_cleaned:
  "parseKeyValuePayload raw = Some q \<Longrightarrow>
     \<exists>u d a g m em. q = \<lparr>username = cleanText u, dob = cleanText d, age = cleanText a,
        gender = normalizeGender g, mobile = cleanPhone m, email = cleanEmail em\<rparr>"
  by (auto simp: parseKeyValuePayload_def Let_def split: if_splits)

lemma parseDelimitedPayload_cleaned:
  "parseDelimitedPayload raw = Some q \<Longrightarrow>
     \<exists>u d a g m em. q = \<lparr>username = cleanText u, dob = cleanText d, age = cleanText a,
        gender = normalizeGender g, mobile = cleanPhone m, email = cleanEmail em\<rparr>"
  by (auto simp: parseDelimitedPayload_def Let_def split: if_splits)

lemma parseQrPayload_cleaned:
  assumes "parseQrPayload jp raw = Some q"
  shows "\<exists>u d a g m em. q = \<lparr>username = cleanText u, dob = cleanText d, age = cleanText a,
        gender = normalizeGender g, mobile = cleanPhone m, email = cleanEmail em\<rparr>"
proof -
  from assms have "parseJsonPayload jp (trim raw) = Some q
      \<or> parseKeyValuePayload (trim raw) = Some q
      \<or> parseDelimitedPayload (trim raw) = Some q"
    by (auto simp: parseQrPayload_def Let_def split: if_splits option.splits)
  then show ?thesis
    using parseJsonPayload_cleaned parseKeyValuePayload_cleaned parseDelimitedPayload_cleaned
    by blast
qed

lemma parseSecureQrBytes_cleaned:
  assumes "parseSecureQrBytes decode bytes = Some r"
  shows "r ''referenceId'' = Some (cleanText (decode (delimitedFields bytes ! 1)))
     \<and> r ''name'' = Some (cleanText (decode (delimitedFields bytes ! 2)))
     \<and> r ''dob'' = Some (cleanText (decode (delimitedFields bytes ! 3)))
     \<and> r ''gender'' = Some (cleanText (decode (delimitedFields bytes ! 4)))
     \<and> r ''pin'' = Some (cleanText (decode (delimitedFields bytes ! 10)))"
proof -
  define D where "D = map (\<lambda>chunk. cleanText (decode chunk)) (take 16 (delimitedFields bytes))"
  from assms have len: "\<not> length (take 16 (delimitedFields bytes)) < 16"
    by (auto simp: parseSecureQrBytes_def secureFields Let_def split: if_splits)
  then have nth: "i < 16 \<Longrightarrow> D ! i = cleanText (decode (delimitedFields bytes ! i))" for i
    by (simp add: D_def)
  from assms have "r = [''referenceId'' \<mapsto> D ! 1, ''name'' \<mapsto> D ! 2, ''gender'' \<mapsto> D ! 4,
        ''dob'' \<mapsto> D ! 3,
        ''address'' \<mapsto> joinAddress [D ! 5, D ! 8, D ! 13, D ! 7, D ! 9, D ! 15, D ! 14, D ! 6,
                                     D ! 12, D ! 10, D ! 11],
        ''pin'' \<mapsto> D ! 10, ''source'' \<mapsto> ''Secure QR'']"
    by (auto simp: parseSecureQrBytes_def secureFields Let_def D_def split: if_splits)
  then show ?thesis by (simp add: nth)
qed

lemma noSpaceRun_append:
  "noSpaceRun (xs @ ys) \<longleftrightarrow>
     noSpaceRun xs \<and> noSpaceRun ys
     \<and> (xs = [] \<or> ys = [] \<or> \<not> (isSpace (last xs) \<and> isSpace (hd ys)))"
proof (induction xs)
  case Nil
  show ?case by simp
next
  case (Cons a as)
  show ?case
  proof (cases as)
    case Nil
    then show ?thesis by (cases ys) auto
  next
    case (Cons b bs)
    with Cons.IH show ?thesis by auto
  qed
qed

lemma isClean_joined:
  assumes "isClean a" and "a \<noteq> []" and "isClean b" and "b \<noteq> []"
  shows "isClean (a @ '', '' @ b)"
proof -
  have comma: "\<not> isSpace (CHR '','')" and space: "isSpace (CHR '' '')"
    by (simp_all add: isSpace_def)
  from assms(3,4) have hb: "\<not> isSpace (hd b)" and rb: "noSpaceRun b"
    by (simp_all add: isClean_def)
  have sep: "noSpaceRun ('', '' @ b)"
    using comma hb rb assms(4) by (cases b) simp_all
  have "noSpaceRun (a @ '', '' @ b)"
    using assms(1,2) sep comma by (simp add: noSpaceRun_append isClean_def)
  moreover have "list_all (\<lambda>c. isSpace c \<longrightarrow> c = CHR '' '') (a @ '', '' @ b)"
    using assms(1,3) comma by (simp add: isClean_def)
  moreover have "\<not> isSpace (hd (a @ '', '' @ b))"
    using assms(1,2) by (simp add: isClean_def)
  moreover have "\<not> isSpace (last (a @ '', '' @ b))"
    using assms(3,4) by (simp add: isClean_def)
  ultimately show ?thesis by (simp add: isClean_def)
qed

lemma join_isClean:
  "\<forall>x\<in>set xs. isClean x \<and> x \<noteq> [] \<Longrightarrow>
     isClean (join '', '' xs) \<and> (xs \<noteq> [] \<longrightarrow> join '', '' xs \<noteq> [])"
proof (induction "'', ''" xs rule: join.induct)
  case 1
  show ?case by (simp add: isClean_def)
next
  case (2 x)
  then show ?case by simp
next
  case (3 x y ys)
  then have rest: "isClean (join '', '' (y # ys))" and ne: "join '', '' (y # ys) \<noteq> []"
    by simp_all
  from 3(2) have x: "isClean x" "x \<noteq> []" by simp_all
  have "isClean (x @ '', '' @ join '', '' (y # ys))"
    using x rest ne by (rule isClean_joined)
  then show ?case using x by simp
qed

lemma joinAddress_isClean: "isClean (joinAddress parts)"
proof -
  have "\<forall>x\<in>set (filter (\<lambda>p. p \<noteq> []) (map cleanText parts)). isClean x \<and> x \<noteq> []"
    by (auto simp: cleanText_isClean)
  then show ?thesis unfolding joinAddress_def using join_isClean by blast
qed

lemma first_tag:
  "doc_getElementsByTagName doc t = n # ns \<Longrightarrow> tagName n = t"
proof -
  assume "doc_getElementsByTagName doc t = n # ns"
  then have "n \<in> set (filter (\<lambda>m. tagName m = t) (elements doc))"
    by (simp add: doc_getElementsByTagName_def)
  then show ?thesis by simp
qed

lemma parseXmlPayload_roots:
  assumes "parseXmlPayload p raw = Some r"
  shows "\<exists>n. (tagName n = ''PrintLetterBarcodeData'' \<and> r = parsePrintLetter n)
           \<or> (tagName n = ''OfflinePaperlessKyc'' \<and> r = parseOfflinePaperless n)
           \<or> (tagName n = ''OKY'' \<and> r = parseOkY n)"
  using assms
  by (auto simp: parseXmlPayload_def Let_def split: option.splits if_splits list.splits
        dest: first_tag)

lemma markup_genders:
  "field (parsePrintLetter n) ''gender'' = orEmpty (getAttribute n ''gender'')
   \<and> field (parseOfflinePaperless n) ''gender''
       = (case first (getElementsByTagName n ''Poi'') of
            None \<Rightarrow> [] | Some poi \<Rightarrow> orEmpty (getAttribute poi ''gender''))
   \<and> field (parseOkY n) ''gender'' = orEmpty (getAttribute n ''g'')"
  by (simp add: parsePrintLetter_def parseOfflinePaperless_def parseOkY_def field_def Let_def
        orEmpty_def)

lemma parseSecureQrBytes_record:
  assumes "parseSecureQrBytes decode bytes = Some r"
  shows "r = (let D = (\<lambda>i. cleanText (decode (delimitedFields bytes ! i)))
              in [''referenceId'' \<mapsto> D 1, ''name'' \<mapsto> D 2, ''gender'' \<mapsto> D 4, ''dob'' \<mapsto> D 3,
                  ''address'' \<mapsto> joinAddress [D 5, D 8, D 13, D 7, D 9, D 15, D 14, D 6, D 12,
                                              D 10, D 11],
                  ''pin'' \<mapsto> D 10, ''source'' \<mapsto> ''Secure QR''])"
proof -
  define E where "E = map (\<lambda>chunk. cleanText (decode chunk)) (take 16 (delimitedFields bytes))"
  from assms have len: "\<not> length (take 16 (delimitedFields bytes)) < 16"
    by (auto simp: parseSecureQrBytes_def secureFields Let_def split: if_splits)
  then have nth: "i < 16 \<Longrightarrow> E ! i = cleanText (decode (delimitedFields bytes ! i))" for i
    by (simp add: E_def)
  from assms have "r = [''referenceId'' \<mapsto> E ! 1, ''name'' \<mapsto> E ! 2, ''gender'' \<mapsto> E ! 4,
        ''dob'' \<mapsto> E ! 3,
        ''address'' \<mapsto> joinAddress [E ! 5, E ! 8, E ! 13, E ! 7, E ! 9, E ! 15, E ! 14, E ! 6,
                                     E ! 12, E ! 10, E ! 11],
        ''pin'' \<mapsto> E ! 10, ''source'' \<mapsto> ''Secure QR'']"
    by (auto simp: parseSecureQrBytes_def secureFields Let_def E_def split: if_splits)
  then show ?thesis by (simp add: nth Let_def)
qed

text \<open>
  C2, as amended. A record of the generic decoder has username, dob and age passed through
  \<open>cleanText\<close>, gender through \<open>normalizeGender\<close>, mobile through \<open>cleanPhone\<close> and email
  through \<open>cleanEmail\<close> (trimmed and lower-cased); what \<open>cleanText\<close> returns is clean
  (whitespace runs collapsed to single spaces, ends trimmed). The Secure-format grammar
  returns exactly the record of its cleaned positional fields, the address joined from
  the cleaned locality fields: every value of that record is clean, and its gender is the
  cleaned fifth field, not normalized. \<open>normalizeGender\<close> is the prefix rule on the
  trimmed text, whatever the case of the first letter: m gives Male, f Female,
  t Transgender, anything else the trimmed text. A record of the markup grammar comes
  from an element with one of the three recognized tags, and its gender is an attribute
  as written: \<open>gender\<close> of a PrintLetterBarcodeData element, \<open>gender\<close> of the first Poi
  element below an OfflinePaperlessKyc element, \<open>g\<close> of an OKY element (empty when that
  attribute is missing). \<open>normalizeGender\<close> is applied where a record is displayed.
\<close>

theorem decoder_cleaning:
  "(parseQrPayload jp raw = Some q \<longrightarrow>
      (\<exists>u d a g m em. q = \<lparr>username = cleanText u, dob = cleanText d, age = cleanText a,
         gender = normalizeGender g, mobile = cleanPhone m, email = cleanEmail em\<rparr>)
      \<and> isClean (username q) \<and> isClean (dob q) \<and> isClean (age q))
   \<and> (parseSecureQrBytes decode bytes = Some r \<longrightarrow>
        r ''referenceId'' = Some (cleanText (decode (delimitedFields bytes ! 1)))
      \<and> r ''name'' = Some (cleanText (decode (delimitedFields bytes ! 2)))
      \<and> r ''dob'' = Some (cleanText (decode (delimitedFields bytes ! 3)))
      \<and> r ''gender'' = Some (cleanText (decode (delimitedFields bytes ! 4)))
      \<and> r ''pin'' = Some (cleanText (decode (delimitedFields bytes ! 10)))
      \<and> r = (let D = (\<lambda>i. cleanText (decode (delimitedFields bytes ! i)))
               in [''referenceId'' \<mapsto> D 1, ''name'' \<mapsto> D 2, ''gender'' \<mapsto> D 4, ''dob'' \<mapsto> D 3,
                   ''address'' \<mapsto> joinAddress [D 5, D 8, D 13, D 7, D 9, D 15, D 14, D 6, D 12,
                                               D 10, D 11],
                   ''pin'' \<mapsto> D 10, ''source'' \<mapsto> ''Secure QR''])
      \<and> (\<forall>k x. r k = Some x \<longrightarrow> isClean x))
   \<and> normalizeGender v =
       (case trim v of
          [] \<Rightarrow> []
        | c # rest \<Rightarrow>
            if c = CHR ''m'' \<or> c = CHR ''M'' then ''Male''
            else if c = CHR ''f'' \<or> c = CHR ''F'' then ''Female''
            else if c = CHR ''t'' \<or> c = CHR ''T'' then ''Transgender''
            else trim v)
   \<and> (parseXmlPayload p xml = Some y \<longrightarrow>
        (\<exists>el. (tagName el = ''PrintLetterBarcodeData'' \<and> y = parsePrintLetter el)
            \<or> (tagName el = ''OfflinePaperlessKyc'' \<and> y = parseOfflinePaperless el)
            \<or> (tagName el = ''OKY'' \<and> y = parseOkY el)))
   \<and> field (parsePrintLetter n) ''gender'' = orEmpty (getAttribute n ''gender'')
   \<and> field (parseOfflinePaperless n) ''gender''
       = (case first (getElementsByTagName n ''Poi'') of
            None \<Rightarrow> [] | Some poi \<Rightarrow> orEmpty (getAttribute poi ''gender''))
   \<and> field (parseOkY n) ''gender'' = orEmpty (getAttribute n ''g'')
   \<and> genderCell (parsePrintLetter n) =
       (if normalizeGender (orEmpty (getAttribute n ''gender'')) \<noteq> []
        then normalizeGender (orEmpty (getAttribute n ''gender'')) else ''-'')
   \<and> genderCell y =
       (if normalizeGender (field y ''gender'') \<noteq> [] then normalizeGender (field y ''gender'')
        else ''-'')
   \<and> isClean (cleanText w)
   \<and> isClean (joinAddress parts)"
proof -
  have generic: "parseQrPayload jp raw = Some q \<longrightarrow>
      (\<exists>u d a g m em. q = \<lparr>username = cleanText u, dob = cleanText d, age = cleanText a,
         gender = normalizeGender g, mobile = cleanPhone m, email = cleanEmail em\<rparr>)
      \<and> isClean (username q) \<and> isClean (dob q) \<and> isClean (age q)"
  proof
    assume "parseQrPayload jp raw = Some q"
    then obtain u d a g m em where q: "q = \<lparr>username = cleanText u, dob = cleanText d,
        age = cleanText a, gender = normalizeGender g, mobile = cleanPhone m,
        email = cleanEmail em\<rparr>"
      using parseQrPayload_cleaned by blast
    then have "isClean (username q) \<and> isClean (dob q) \<and> isClean (age q)"
      by (simp add: cleanText_isClean)
    with q show "(\<exists>u d a g m em. q = \<lparr>username = cleanText u, dob = cleanText d,
        age = cleanText a, gender = normalizeGender g, mobile = cleanPhone m,
        email = cleanEmail em\<rparr>)
      \<and> isClean (username q) \<and> isClean (dob q) \<and> isClean (age q)"
      by blast
  qed
  have secure: "parseSecureQrBytes decode bytes = Some r \<longrightarrow>
        r ''referenceId'' = Some (cleanText (decode (delimitedFields bytes ! 1)))
      \<and> r ''name'' = Some (cleanText (decode (delimitedFields bytes ! 2)))
      \<and> r ''dob'' = Some (cleanText (decode (delimitedFields bytes ! 3)))
      \<and> r ''gender'' = Some (cleanText (decode (delimitedFields bytes ! 4)))
      \<and> r ''pin'' = Some (cleanText (decode (delimitedFields bytes ! 10)))
      \<and> r = (let D = (\<lambda>i. cleanText (decode (delimitedFields bytes ! i)))
               in [''referenceId'' \<mapsto> D 1, ''name'' \<mapsto> D 2, ''gender'' \<mapsto> D 4, ''dob'' \<mapsto> D 3,
                   ''address'' \<mapsto> joinAddress [D 5, D 8, D 13, D 7, D 9, D 15, D 14, D 6, D 12,
                                               D 10, D 11],
                   ''pin'' \<mapsto> D 10, ''source'' \<mapsto> ''Secure QR''])
      \<and> (\<forall>k x. r k = Some x \<longrightarrow> isClean x)"
  proof
    assume ok: "parseSecureQrBytes decode bytes = Some r"
    note whole = parseSecureQrBytes_record [OF ok]
    have tag: "isClean ''Secure QR''" by code_simp
    have "\<forall>k x. r k = Some x \<longrightarrow> isClean x"
    proof (intro allI impI)
      fix k x
      assume "r k = Some x"
      then show "isClean x"
        by (subst (asm) whole)
           (auto simp: Let_def cleanText_isClean joinAddress_isClean tag split: if_splits)
    qed
    with parseSecureQrBytes_cleaned [OF ok] whole
    show "r ''referenceId'' = Some (cleanText (decode (delimitedFields bytes ! 1)))
      \<and> r ''name'' = Some (cleanText (decode (delimitedFields bytes ! 2)))
      \<and> r ''dob'' = Some (cleanText (decode (delimitedFields bytes ! 3)))
      \<and> r ''gender'' = Some (cleanText (decode (delimitedFields bytes ! 4)))
      \<and> r ''pin'' = Some (cleanText (decode (delimitedFields bytes ! 10)))
      \<and> r = (let D = (\<lambda>i. cleanText (decode (delimitedFields bytes ! i)))
               in [''referenceId'' \<mapsto> D 1, ''name'' \<mapsto> D 2, ''gender'' \<mapsto> D 4, ''dob'' \<mapsto> D 3,
                   ''address'' \<mapsto> joinAddress [D 5, D 8, D 13, D 7, D 9, D 15, D 14, D 6, D 12,
                                               D 10, D 11],
                   ''pin'' \<mapsto> D 10, ''source'' \<mapsto> ''Secure QR''])
      \<and> (\<forall>k x. r k = Some x \<longrightarrow> isClean x)"
      by blast
  qed
  have roots: "parseXmlPayload p xml = Some y \<longrightarrow>
        (\<exists>el. (tagName el = ''PrintLetterBarcodeData'' \<and> y = parsePrintLetter el)
            \<or> (tagName el = ''OfflinePaperlessKyc'' \<and> y = parseOfflinePaperless el)
            \<or> (tagName el = ''OKY'' \<and> y = parseOkY el))"
    using parseXmlPayload_roots by blast
  have shown: "genderCell (parsePrintLetter n) =
       (if normalizeGender (orEmpty (getAttribute n ''gender'')) \<noteq> []
        then normalizeGender (orEmpty (getAttribute n ''gender'')) else ''-'')"
    using markup_genders [of n] by (simp only: genderCell_def)
  have cell: "genderCell y =
       (if normalizeGender (field y ''gender'') \<noteq> [] then normalizeGender (field y ''gender'')
        else ''-'')"
    by (simp only: genderCell_def)
  from generic secure normalizeGender_prefix [of v] roots markup_genders [of n] shown cell
    cleanText_isClean [of w] joinAddress_isClean [of parts]
  show ?thesis by blast
qed

theorem decoder_cleaning_witness:
  "parseQrPayload jsonParse_throws ''Jane|1990-01-01|34|F|9990001111|jane@x.com''
     = Some \<lparr>username = ''Jane'', dob = ''1990-01-01'', age = ''34'', gender = ''Female'',
              mobile = ''9990001111'', email = ''jane@x.com''\<rparr>
   \<and> (\<exists>u d a g m em.
        \<lparr>username = ''Jane'', dob = ''1990-01-01'', age = ''34'', gender = ''Female'',
          mobile = ''9990001111'', email = ''jane@x.com''\<rparr>
        = \<lparr>username = cleanText u, dob = cleanText d, age = cleanText a,
            gender = normalizeGender g, mobile = cleanPhone m, email = cleanEmail em\<rparr>)
   \<and> isClean ''Jane''
   \<and> parseSecureQrBytes decodeLatin1 secure_sample \<noteq> None
   \<and> map_option (\<lambda>r. r ''name'') (parseSecureQrBytes decodeLatin1 secure_sample)
       = Some (Some (cleanText (decodeLatin1 (delimitedFields secure_sample ! 2))))
   \<and> map_option (\<lambda>r. field r ''address'') (parseSecureQrBytes decodeLatin1 secure_sample)
       = Some ''A, A, A, A, A, A, A, A, A, A, A''
   \<and> isClean ''A, A, A, A, A, A, A, A, A, A, A''
   \<and> normalizeGender ''M'' = ''Male''
   \<and> parseXmlPayload (parseFromString env_markup) markup_sample
       = Some (parsePrintLetter print_letter_sample)
   \<and> (\<exists>el. (tagName el = ''PrintLetterBarcodeData''
               \<and> parsePrintLetter print_letter_sample = parsePrintLetter el)
            \<or> (tagName el = ''OfflinePaperlessKyc''
               \<and> parsePrintLetter print_letter_sample = parseOfflinePaperless el)
            \<or> (tagName el = ''OKY'' \<and> parsePrintLetter print_letter_sample = parseOkY el))
   \<and> field (parsePrintLetter print_letter_sample) ''gender'' = ''M''
   \<and> genderCell (parsePrintLetter print_letter_sample) = ''Male''
   \<and> field (parseOfflinePaperless offline_sample) ''gender'' = ''F''
   \<and> genderCell (parseOfflinePaperless offline_sample) = ''Female''
   \<and> field (parseOkY oky_sample) ''gender'' = ''T''
   \<and> genderCell (parseOkY oky_sample) = ''Transgender''
   \<and> cleanText '' A  B '' = ''A B''
   \<and> isClean ''A B''"
proof -
  let ?jane = "\<lparr>username = ''Jane'', dob = ''1990-01-01'', age = ''34'', gender = ''Female'',
              mobile = ''9990001111'', email = ''jane@x.com''\<rparr>"
  have parsed: "parseQrPayload jsonParse_throws ''Jane|1990-01-01|34|F|9990001111|jane@x.com''
     = Some ?jane" by code_simp
  obtain rec where secure: "parseSecureQrBytes decodeLatin1 secure_sample = Some rec"
  proof -
    have "parseSecureQrBytes decodeLatin1 secure_sample \<noteq> None" by code_simp
    then show ?thesis using that by blast
  qed
  have addr: "map_option (\<lambda>r. field r ''address'') (parseSecureQrBytes decodeLatin1 secure_sample)
       = Some ''A, A, A, A, A, A, A, A, A, A, A''" by code_simp
  then have addr': "rec ''address'' = Some ''A, A, A, A, A, A, A, A, A, A, A''"
  proof -
    have "rec ''address'' \<noteq> None"
      using parseSecureQrBytes_record [OF secure] by (simp add: Let_def)
    then show ?thesis using addr secure by (auto simp: field_def orEmpty_def)
  qed
  have xml: "parseXmlPayload (parseFromString env_markup) markup_sample
      = Some (parsePrintLetter print_letter_sample)"
  proof -
    have "extractXml markup_sample = Some markup_sample" by code_simp
    moreover have "markup_sample \<noteq> []" by code_simp
    ultimately show ?thesis
      by (simp add: parseXmlPayload_def Let_def env_markup_def print_letter_sample_def
            doc_getElementsByTagName_def)
  qed
  have trimmed: "trim ''M'' = ''M''" and trimmed_f: "trim ''F'' = ''F''"
    and trimmed_t: "trim ''T'' = ''T''" by code_simp+
  have attr: "orEmpty (getAttribute print_letter_sample ''gender'') = ''M''" by code_simp
  have poi: "(case first (getElementsByTagName offline_sample ''Poi'') of
            None \<Rightarrow> [] | Some poi \<Rightarrow> orEmpty (getAttribute poi ''gender'')) = ''F''"
    by code_simp
  have g: "orEmpty (getAttribute oky_sample ''g'') = ''T''" by code_simp
  note facts = decoder_cleaning [where jp = jsonParse_throws
      and raw = "''Jane|1990-01-01|34|F|9990001111|jane@x.com''" and q = ?jane
      and decode = decodeLatin1 and bytes = secure_sample and r = rec
      and v = "''M''" and n = print_letter_sample and w = "'' A  B ''"
      and p = "parseFromString env_markup" and xml = markup_sample
      and y = "parsePrintLetter print_letter_sample" and parts = "[]"]
  from facts parsed have 1: "\<exists>u d a g m em. ?jane
        = \<lparr>username = cleanText u, dob = cleanText d, age = cleanText a,
            gender = normalizeGender g, mobile = cleanPhone m, email = cleanEmail em\<rparr>"
    and j: "isClean ''Jane''"
    by auto
  from facts secure have 2: "rec ''name''
      = Some (cleanText (decodeLatin1 (delimitedFields secure_sample ! 2)))"
    and all_clean: "\<forall>k x. rec k = Some x \<longrightarrow> isClean x" by blast+
  from all_clean addr' have ac: "isClean ''A, A, A, A, A, A, A, A, A, A, A''" by blast
  from facts trimmed have 3: "normalizeGender ''M'' = ''Male''" by simp
  from facts xml have roots: "\<exists>el. (tagName el = ''PrintLetterBarcodeData''
               \<and> parsePrintLetter print_letter_sample = parsePrintLetter el)
            \<or> (tagName el = ''OfflinePaperlessKyc''
               \<and> parsePrintLetter print_letter_sample = parseOfflinePaperless el)
            \<or> (tagName el = ''OKY'' \<and> parsePrintLetter print_letter_sample = parseOkY el)"
    by blast
  from facts attr have 4: "field (parsePrintLetter print_letter_sample) ''gender'' = ''M''"
    by simp
  from facts attr 3 have 5: "genderCell (parsePrintLetter print_letter_sample) = ''Male''"
    by simp
  note offline = decoder_cleaning [where n = offline_sample and v = "''F''"
      and y = "parseOfflinePaperless offline_sample"]
  from offline poi have 8: "field (parseOfflinePaperless offline_sample) ''gender'' = ''F''"
    by simp
  from offline trimmed_f have "normalizeGender ''F'' = ''Female''" by simp
  with offline 8 have 9: "genderCell (parseOfflinePaperless offline_sample) = ''Female''"
    by simp
  note oky = decoder_cleaning [where n = oky_sample and v = "''T''"
      and y = "parseOkY oky_sample"]
  from oky g have 10: "field (parseOkY oky_sample) ''gender'' = ''T''" by simp
  from oky trimmed_t have "normalizeGender ''T'' = ''Transgender''" by simp
  with oky 10 have 11: "genderCell (parseOkY oky_sample) = ''Transgender''" by simp
  have 6: "cleanText '' A  B '' = ''A B''" by code_simp
  from facts 6 have 7: "isClean ''A B''" by simp
  from parsed 1 j secure 2 addr ac 3 xml roots 4 5 8 9 10 11 6 7 show ?thesis by simp
qed

text \<open>
  C2 as stated fails: the markup payload with \<open>gender='M'\<close> decodes to a record whose
  gender is \<open>M\<close>, not \<open>Male\<close>; a name attribute keeps its whitespace; and the email of a
  key-value payload keeps a run of two spaces.
\<close>

theorem markup_gender_counterexample:
  "parseAadhaarPayload env_markup markup_sample = Some (parsePrintLetter print_letter_sample)
   \<and> field (parsePrintLetter print_letter_sample) ''gender'' = ''M''
   \<and> field (parsePrintLetter print_letter_sample) ''gender'' \<noteq> ''Male''
   \<and> field (parsePrintLetter print_letter_sample) ''gender''
       \<noteq> normalizeGender (field (parsePrintLetter print_letter_sample) ''gender'')
   \<and> field (parsePrintLetter print_letter_spaced) ''name'' = '' A  B ''
   \<and> \<not> isClean (field (parsePrintLetter print_letter_spaced) ''name'')
   \<and> map_option email (parseQrPayload jsonParse_throws ''name=Jane; email=A  B@X.com'')
       = Some ''a  b@x.com''
   \<and> \<not> isClean ''a  b@x.com''"
proof -
  have decoded: "parseAadhaarPayload env_markup markup_sample
      = Some (parsePrintLetter print_letter_sample)"
  proof -
    have "extractXml (trim markup_sample) = Some markup_sample" by code_simp
    moreover have "trim markup_sample \<noteq> []" by code_simp
    moreover have "markup_sample \<noteq> []" by code_simp
    ultimately show ?thesis
      by (simp add: parseAadhaarPayload_def parseXmlPayload_def Let_def env_markup_def
            print_letter_sample_def doc_getElementsByTagName_def)
  qed
  have g: "field (parsePrintLetter print_letter_sample) ''gender'' = ''M''" by code_simp
  have n: "normalizeGender ''M'' = ''Male''" by code_simp
  have nm: "field (parsePrintLetter print_letter_spaced) ''name'' = '' A  B ''" by code_simp
  have cl: "\<not> isClean '' A  B ''" by code_simp
  have em: "map_option email (parseQrPayload jsonParse_throws ''name=Jane; email=A  B@X.com'')
       = Some ''a  b@x.com''" by code_simp
  have cle: "\<not> isClean ''a  b@x.com''" by code_simp
  from decoded g n nm cl em cle show ?thesis by simp
qed


section \<open>The scan handlers\<close>

subsection \<open>The missing decompression capability\<close>

lemma replaceSpaceRuns_empty: "replaceSpaceRuns [] v = filter (\<lambda>c. \<not> isSpace c) v"
proof (induction "[] :: string" v rule: replaceSpaceRuns.induct)
  case 1
  show ?case by simp
next
  case (2 c cs)
  have drop: "filter (\<lambda>c. \<not> isSpace c) (dropWhile isSpace cs) = filter (\<lambda>c. \<not> isSpace c) cs"
    by (induction cs) auto
  show ?case using 2 drop by simp
qed

lemma set_trim: "set (trim v) \<subseteq> set v"
proof -
  have "set (trim v) \<subseteq> set (dropWhile isSpace v)"
    unfolding trim_def by (auto dest: set_dropWhileD)
  then show ?thesis by (auto dest: set_dropWhileD)
qed

lemma digits_no_markup:
  assumes "digits50 (replaceSpaceRuns [] v)"
  shows "CHR ''<'' \<notin> set v"
proof
  assume mem: "CHR ''<'' \<in> set v"
  have "\<not> isSpace (CHR ''<'')" by (simp add: isSpace_def)
  with mem have "CHR ''<'' \<in> set (replaceSpaceRuns [] v)" by (simp add: replaceSpaceRuns_empty)
  with assms have "isDigit (CHR ''<'')" by (auto simp: digits50_def list_all_iff)
  then show False by (simp add: isDigit_def)
qed

lemma digits_not_xml:
  assumes "digits50 (replaceSpaceRuns [] v)"
  shows "parseXmlPayload p (trim v) = None"
proof -
  have "CHR ''<'' \<notin> set (trim v)" using digits_no_markup [OF assms] set_trim [of v] by auto
  then show ?thesis by (simp add: parseXmlPayload_def extractXml_def)
qed

lemma no_inflate_no_record:
  assumes "digits50 (replaceSpaceRuns [] v)" and "\<not> hasDecompressionStream e"
  shows "parseAadhaarPayload e v = None"
proof -
  have "parseSecureQr e (trim v) = None"
    using assms(2) by (simp add: parseSecureQr_def inflateBytes_def Let_def)
  then show ?thesis
    using digits_not_xml [OF assms(1)] by (simp add: parseAadhaarPayload_def Let_def)
qed

text \<open>
  C5. When the scanned string, stripped of whitespace, is fifty or more decimal digits and
  the platform has no \<open>DecompressionStream\<close>, the handler (unless the delivery is a
  suppressed duplicate, which changes nothing) reports
  \<open>Secure QR needs a compatible browser to decode.\<close>, a message of its own, different
  from both messages of the parse-failure path; the decoder by itself would only have
  returned no record.
\<close>

theorem capability_gap_reported:
  "digits50 (replaceSpaceRuns [] v) \<Longrightarrow> \<not> hasDecompressionStream e \<Longrightarrow>
     handleScanResult e now stamp v s =
       (if lastValue s = Some v \<and> now - lastValueTs s < 1200 then s
        else setStatus ''Secure QR needs a compatible browser to decode.'' True
               (s\<lparr>lastValue := Some v, lastValueTs := now\<rparr>))
     \<and> ''Secure QR needs a compatible browser to decode.'' \<noteq> ''Secure QR could not be decoded.''
     \<and> ''Secure QR needs a compatible browser to decode.'' \<noteq> ''Not an Aadhaar QR format.''
     \<and> parseAadhaarPayload e v = None"
proof -
  assume numeric: "digits50 (replaceSpaceRuns [] v)" and gap: "\<not> hasDecompressionStream e"
  have handler: "handleScanResult e now stamp v s =
       (if lastValue s = Some v \<and> now - lastValueTs s < 1200 then s
        else setStatus ''Secure QR needs a compatible browser to decode.'' True
               (s\<lparr>lastValue := Some v, lastValueTs := now\<rparr>))"
    using numeric gap by (simp add: handleScanResult_def duplicateCooldownMs_def Let_def)
  have decoder: "parseAadhaarPayload e v = None"
    using numeric gap by (rule no_inflate_no_record)
  from handler decoder show ?thesis by simp
qed

theorem capability_gap_reported_witness:
  "digits50 (replaceSpaceRuns [] (replicate 50 (CHR ''7'')))
   \<and> \<not> hasDecompressionStream env_sample
   \<and> statusLine (handleScanResult env_sample 5000 ''t'' (replicate 50 (CHR ''7'')) state0)
       = (''Secure QR needs a compatible browser to decode.'', True)"
proof -
  have numeric: "digits50 (replaceSpaceRuns [] (replicate 50 (CHR ''7'')))" by code_simp
  have gap: "\<not> hasDecompressionStream env_sample" by (simp add: env_sample_def)
  have fresh: "lastValue (state0 :: jsobj state) = None" by (simp add: state0_def)
  from capability_gap_reported [OF numeric gap, of 5000 "''t''" state0] fresh
  have "statusLine (handleScanResult env_sample 5000 ''t'' (replicate 50 (CHR ''7'')) state0)
       = (''Secure QR needs a compatible browser to decode.'', True)"
    by (simp add: setStatus_def)
  with numeric gap show ?thesis by blast
qed

subsection \<open>Duplicate suppression\<close>

lemma upsertRecord_last:
  "lastValue (upsertRecord stamp r s) = lastValue s
   \<and> lastValueTs (upsertRecord stamp r s) = lastValueTs s"
  by (simp add: upsertRecord_def setStatus_def Let_def)

lemma upsertRecord_gen_last:
  "lastValue (upsertRecord_gen canStore r s) = lastValue s
   \<and> lastValueTs (upsertRecord_gen canStore r s) = lastValueTs s"
  by (simp add: upsertRecord_gen_def saveRecords_def setStatus_def Let_def)

lemma handleScanResult_armed:
  assumes "\<not> (lastValue s = Some v \<and> now - lastValueTs s < 1200)"
  shows "lastValue (handleScanResult e now stamp v s) = Some v
         \<and> lastValueTs (handleScanResult e now stamp v s) = now"
  using assms
  by (auto simp: handleScanResult_def duplicateCooldownMs_def Let_def setStatus_def
        upsertRecord_last split: option.splits)

lemma handleScanResult_gen_armed:
  assumes "\<not> (lastValue s = Some v \<and> now - lastValueTs s < 1200)"
  shows "lastValue (handleScanResult_gen jp now canStore v s) = Some v
         \<and> lastValueTs (handleScanResult_gen jp now canStore v s) = now"
  using assms
  by (auto simp: handleScanResult_gen_def duplicateCooldownMs_def Let_def setStatus_def
        upsertRecord_gen_last split: option.splits)

lemma handleScanResult_duplicate:
  "lastValue s = Some v \<Longrightarrow> now - lastValueTs s < 1200 \<Longrightarrow>
     handleScanResult e now stamp v s = s"
  by (simp add: handleScanResult_def duplicateCooldownMs_def)

lemma handleScanResult_gen_duplicate:
  "lastValue s = Some v \<Longrightarrow> now - lastValueTs s < 1200 \<Longrightarrow>
     handleScanResult_gen jp now canStore v s = s"
  by (simp add: handleScanResult_gen_def duplicateCooldownMs_def)

text \<open>
  C7, as amended. In both programs a delivery of the string that \<open>state.lastValue\<close>
  holds, less than 1200 ms after \<open>state.lastValueTs\<close>, returns the state as it was,
  whatever the platform and the decoder are: nothing is decoded and the store is not
  touched. \<open>lastValue\<close> and \<open>lastValueTs\<close> are the string and the time of the last
  delivery that was not suppressed: every such delivery records them, and a suppressed
  one leaves them alone.
\<close>

theorem duplicate_suppression:
  "(lastValue s = Some v \<and> now - lastValueTs s < 1200 \<longrightarrow>
      handleScanResult e now stamp v s = s)
   \<and> (lastValue g = Some v \<and> now - lastValueTs g < 1200 \<longrightarrow>
      handleScanResult_gen jp now canStore v g = g)
   \<and> (\<not> (lastValue s = Some v \<and> now - lastValueTs s < 1200) \<longrightarrow>
      lastValue (handleScanResult e now stamp v s) = Some v
      \<and> lastValueTs (handleScanResult e now stamp v s) = now)
   \<and> (\<not> (lastValue g = Some v \<and> now - lastValueTs g < 1200) \<longrightarrow>
      lastValue (handleScanResult_gen jp now canStore v g) = Some v
      \<and> lastValueTs (handleScanResult_gen jp now canStore v g) = now)"
  using handleScanResult_duplicate [of s v now e stamp]
    handleScanResult_gen_duplicate [of g v now jp canStore]
    handleScanResult_armed [of s v now e stamp]
    handleScanResult_gen_armed [of g v now jp canStore]
  by blast

theorem duplicate_suppression_witness:
  "lastValue (state0\<lparr>lastValue := Some markup_sample, lastValueTs := 100\<rparr> :: jsobj state)
      = Some markup_sample
   \<and> (1299 :: int) - lastValueTs (state0\<lparr>lastValue := Some markup_sample, lastValueTs := 100\<rparr> :: jsobj state) < 1200
   \<and> handleScanResult env_markup 1299 ''t'' markup_sample
        (state0\<lparr>lastValue := Some markup_sample, lastValueTs := 100\<rparr>)
      = state0\<lparr>lastValue := Some markup_sample, lastValueTs := 100\<rparr>
   \<and> handleScanResult_gen jsonParse_throws 1299 True jane_kv
        (state0_gen\<lparr>lastValue := Some jane_kv, lastValueTs := 100\<rparr>)
      = state0_gen\<lparr>lastValue := Some jane_kv, lastValueTs := 100\<rparr>
   \<and> lastValueTs (handleScanResult env_markup 1300 ''t'' markup_sample
        (state0\<lparr>lastValue := Some markup_sample, lastValueTs := 100\<rparr>)) = 1300
   \<and> lastValueTs (handleScanResult_gen jsonParse_throws 1300 True jane_kv
        (state0_gen\<lparr>lastValue := Some jane_kv, lastValueTs := 100\<rparr>)) = 1300"
proof -
  let ?s = "state0\<lparr>lastValue := Some markup_sample, lastValueTs := 100\<rparr> :: jsobj state"
  let ?g = "state0_gen\<lparr>lastValue := Some jane_kv, lastValueTs := 100\<rparr>"
  have a: "lastValue ?s = Some markup_sample" and b: "(1299 :: int) - lastValueTs ?s < 1200"
    and c: "\<not> (1300 :: int) - lastValueTs ?s < 1200"
    by simp_all
  have a': "lastValue ?g = Some jane_kv" and b': "(1299 :: int) - lastValueTs ?g < 1200"
    and c': "\<not> (1300 :: int) - lastValueTs ?g < 1200"
    by simp_all
  from duplicate_suppression [where s = ?s and g = ?g and v = markup_sample and now = 1299
      and e = env_markup and stamp = "''t''"] a b
  have 1: "handleScanResult env_markup 1299 ''t'' markup_sample ?s = ?s" by blast
  from duplicate_suppression [where s = ?s and g = ?g and v = jane_kv and now = 1299
      and jp = jsonParse_throws and canStore = True] a' b'
  have 2: "handleScanResult_gen jsonParse_throws 1299 True jane_kv ?g = ?g" by blast
  from duplicate_suppression [where s = ?s and g = ?g and v = markup_sample and now = 1300
      and e = env_markup and stamp = "''t''"] c
  have 3: "lastValueTs (handleScanResult env_markup 1300 ''t'' markup_sample ?s) = 1300" by blast
  from duplicate_suppression [where s = ?s and g = ?g and v = jane_kv and now = 1300
      and jp = jsonParse_throws and canStore = True] c'
  have 4: "lastValueTs (handleScanResult_gen jsonParse_throws 1300 True jane_kv ?g) = 1300" by blast
  from a b 1 2 3 4 show ?thesis by blast
qed

text \<open>
  C7 as stated fails: the window is counted from the last delivery that was handled, and
  a suppressed delivery does not move it. The same string is delivered at 0 ms, 1000 ms
  and 1500 ms. The second delivery is suppressed. The third equals the delivery right
  before it and comes 500 ms after it, and it is decoded and stored again
  (\<open>lastSeen\<close> changes).
\<close>

theorem duplicate_window_counterexample:
  "handleScanResult env_markup 1000 ''t1'' markup_sample
       (handleScanResult env_markup 0 ''t0'' markup_sample state0)
     = handleScanResult env_markup 0 ''t0'' markup_sample state0
   \<and> (1500 :: int) - 1000 < 1200
   \<and> handleScanResult env_markup 1500 ''t2'' markup_sample
       (handleScanResult env_markup 1000 ''t1'' markup_sample
         (handleScanResult env_markup 0 ''t0'' markup_sample state0))
     \<noteq> handleScanResult env_markup 1000 ''t1'' markup_sample
         (handleScanResult env_markup 0 ''t0'' markup_sample state0)
   \<and> map_option (\<lambda>r. field r ''lastSeen'')
       (records (handleScanResult env_markup 1000 ''t1'' markup_sample
         (handleScanResult env_markup 0 ''t0'' markup_sample state0)) ''1234'') = Some ''t0''
   \<and> map_option (\<lambda>r. field r ''lastSeen'')
       (records (handleScanResult env_markup 1500 ''t2'' markup_sample
         (handleScanResult env_markup 1000 ''t1'' markup_sample
           (handleScanResult env_markup 0 ''t0'' markup_sample state0))) ''1234'') = Some ''t2''"
proof -
  let ?s1 = "handleScanResult env_markup 0 ''t0'' markup_sample state0"
  let ?s2 = "handleScanResult env_markup 1000 ''t1'' markup_sample ?s1"
  let ?s3 = "handleScanResult env_markup 1500 ''t2'' markup_sample ?s2"
  have v1: "lastValue ?s1 = Some markup_sample" and t1: "lastValueTs ?s1 = 0"
    using handleScanResult_armed [of state0 markup_sample 0 env_markup "''t0''"]
    by (simp_all add: state0_def)
  have second: "?s2 = ?s1"
    using v1 t1 by (simp add: handleScanResult_duplicate)
  have seen2: "map_option (\<lambda>r. field r ''lastSeen'') (records ?s1 ''1234'') = Some ''t0''"
    by code_simp
  have seen3: "map_option (\<lambda>r. field r ''lastSeen'')
      (records (handleScanResult env_markup 1500 ''t2'' markup_sample ?s1) ''1234'') = Some ''t2''"
    by code_simp
  have differ: "?s3 \<noteq> ?s2"
  proof
    assume "?s3 = ?s2"
    then have "handleScanResult env_markup 1500 ''t2'' markup_sample ?s1 = ?s1"
      using second by simp
    with seen2 seen3 show False by auto
  qed
  from second differ seen2 seen3 show ?thesis by simp
qed

text \<open>
  C10. A delivery that is not suppressed and whose decode fails (no grammar matches, the
  decompression capability is missing, or the record has no key; in the second program:
  the record is not usable) reports an error, leaves the store as it was, and records the
  string and the time: the same string delivered less than 1200 ms later is dropped, the
  state is returned unchanged whatever the platform and the decoder are then.
\<close>

theorem failed_decode_arms_window:
  "(\<not> (lastValue s = Some v \<and> t0 - lastValueTs s < 1200) \<and> t1 - t0 < 1200
      \<and> (parseAadhaarPayload e v = None
           \<or> (digits50 (replaceSpaceRuns [] v) \<and> \<not> hasDecompressionStream e)
           \<or> (\<exists>r. parseAadhaarPayload e v = Some r \<and> recordKey r = []))
     \<longrightarrow> snd (statusLine (handleScanResult e t0 stamp v s))
         \<and> records (handleScanResult e t0 stamp v s) = records s
         \<and> order (handleScanResult e t0 stamp v s) = order s
         \<and> lastValue (handleScanResult e t0 stamp v s) = Some v
         \<and> lastValueTs (handleScanResult e t0 stamp v s) = t0
         \<and> handleScanResult e' t1 stamp' v (handleScanResult e t0 stamp v s)
             = handleScanResult e t0 stamp v s)
   \<and> (\<not> (lastValue g = Some v \<and> t0 - lastValueTs g < 1200) \<and> t1 - t0 < 1200
      \<and> \<not> isRecordUsable (parseQrPayload jp v)
     \<longrightarrow> snd (statusLine (handleScanResult_gen jp t0 canStore v g))
         \<and> records (handleScanResult_gen jp t0 canStore v g) = records g
         \<and> order (handleScanResult_gen jp t0 canStore v g) = order g
         \<and> lastValue (handleScanResult_gen jp t0 canStore v g) = Some v
         \<and> lastValueTs (handleScanResult_gen jp t0 canStore v g) = t0
         \<and> handleScanResult_gen jp' t1 canStore' v (handleScanResult_gen jp t0 canStore v g)
             = handleScanResult_gen jp t0 canStore v g)"
proof (intro conjI impI)
  assume h: "\<not> (lastValue s = Some v \<and> t0 - lastValueTs s < 1200) \<and> t1 - t0 < 1200
      \<and> (parseAadhaarPayload e v = None
           \<or> (digits50 (replaceSpaceRuns [] v) \<and> \<not> hasDecompressionStream e)
           \<or> (\<exists>r. parseAadhaarPayload e v = Some r \<and> recordKey r = []))"
  let ?s1 = "handleScanResult e t0 stamp v s"
  let ?armed = "s\<lparr>lastValue := Some v, lastValueTs := t0\<rparr>"
  from h have fresh: "\<not> (lastValue s = Some v \<and> t0 - lastValueTs s < 1200)" by blast
  from h have near: "t1 - t0 < 1200" by blast
  from h have failure: "parseAadhaarPayload e v = None
           \<or> (digits50 (replaceSpaceRuns [] v) \<and> \<not> hasDecompressionStream e)
           \<or> (\<exists>r. parseAadhaarPayload e v = Some r \<and> recordKey r = [])" by blast
  have shape: "\<exists>m. ?s1 = setStatus m True ?armed"
    using fresh failure
    by (auto simp: handleScanResult_def duplicateCooldownMs_def Let_def upsertRecord_def
          split: option.splits)
  then obtain m where s1: "?s1 = setStatus m True ?armed" ..
  show "snd (statusLine ?s1)" by (simp add: s1 setStatus_def)
  show "records ?s1 = records s" by (simp add: s1 setStatus_def)
  show "order ?s1 = order s" by (simp add: s1 setStatus_def)
  show lv: "lastValue ?s1 = Some v" by (simp add: s1 setStatus_def)
  show ts: "lastValueTs ?s1 = t0" by (simp add: s1 setStatus_def)
  show "handleScanResult e' t1 stamp' v ?s1 = ?s1"
    using lv ts near by (simp add: handleScanResult_duplicate)
next
  assume h: "\<not> (lastValue g = Some v \<and> t0 - lastValueTs g < 1200) \<and> t1 - t0 < 1200
      \<and> \<not> isRecordUsable (parseQrPayload jp v)"
  let ?s1 = "handleScanResult_gen jp t0 canStore v g"
  let ?armed = "g\<lparr>lastValue := Some v, lastValueTs := t0\<rparr>"
  from h have fresh: "\<not> (lastValue g = Some v \<and> t0 - lastValueTs g < 1200)" by blast
  from h have near: "t1 - t0 < 1200" by blast
  from h have failure: "\<not> isRecordUsable (parseQrPayload jp v)" by blast
  have s1: "?s1 = setStatus ''QR format not recognized.'' True ?armed"
    using fresh failure
    by (auto simp: handleScanResult_gen_def duplicateCooldownMs_def Let_def)
  show "snd (statusLine ?s1)" by (simp add: s1 setStatus_def)
  show "records ?s1 = records g" by (simp add: s1 setStatus_def)
  show "order ?s1 = order g" by (simp add: s1 setStatus_def)
  show lv: "lastValue ?s1 = Some v" by (simp add: s1 setStatus_def)
  show ts: "lastValueTs ?s1 = t0" by (simp add: s1 setStatus_def)
  show "handleScanResult_gen jp' t1 canStore' v ?s1 = ?s1"
    using lv ts near by (simp add: handleScanResult_gen_duplicate)
qed

theorem failed_decode_arms_window_witness:
  "parseAadhaarPayload env_sample ''hello'' = None
   \<and> \<not> isRecordUsable (parseQrPayload jsonParse_throws ''hello'')
   \<and> handleScanResult env_markup 1199 ''t1'' ''hello'' (handleScanResult env_sample 0 ''t0'' ''hello'' state0)
       = handleScanResult env_sample 0 ''t0'' ''hello'' state0
   \<and> statusLine (handleScanResult env_sample 0 ''t0'' ''hello'' state0)
       = (''Not an Aadhaar QR format.'', True)
   \<and> handleScanResult_gen jsonParse_throws 1199 True ''hello''
         (handleScanResult_gen jsonParse_throws 0 True ''hello'' state0_gen)
       = handleScanResult_gen jsonParse_throws 0 True ''hello'' state0_gen
   \<and> statusLine (handleScanResult_gen jsonParse_throws 0 True ''hello'' state0_gen)
       = (''QR format not recognized.'', True)"
proof -
  have none: "parseAadhaarPayload env_sample ''hello'' = None" by code_simp
  have unusable: "\<not> isRecordUsable (parseQrPayload jsonParse_throws ''hello'')" by code_simp
  have fresh: "\<not> (lastValue (state0 :: jsobj state) = Some ''hello''
      \<and> (0 :: int) - lastValueTs (state0 :: jsobj state) < 1200)"
    by (simp add: state0_def)
  have fresh_gen: "\<not> (lastValue state0_gen = Some ''hello''
      \<and> (0 :: int) - lastValueTs state0_gen < 1200)"
    by (simp add: state0_gen_def)
  have near: "(1199 :: int) - 0 < 1200" by simp
  from failed_decode_arms_window [where s = state0 and v = "''hello''" and ?t0.0 = 0 and ?t1.0 = 1199
      and e = env_sample and e' = env_markup and stamp = "''t0''" and stamp' = "''t1''"
      and g = state0_gen and jp = jsonParse_throws and jp' = jsonParse_throws
      and canStore = True and canStore' = True]
    none unusable fresh fresh_gen near
  have 1: "handleScanResult env_markup 1199 ''t1'' ''hello''
             (handleScanResult env_sample 0 ''t0'' ''hello'' state0)
           = handleScanResult env_sample 0 ''t0'' ''hello'' state0"
    and 2: "handleScanResult_gen jsonParse_throws 1199 True ''hello''
             (handleScanResult_gen jsonParse_throws 0 True ''hello'' state0_gen)
           = handleScanResult_gen jsonParse_throws 0 True ''hello'' state0_gen"
    by blast+
  have 3: "statusLine (handleScanResult env_sample 0 ''t0'' ''hello'' state0)
       = (''Not an Aadhaar QR format.'', True)" by code_simp
  have 4: "statusLine (handleScanResult_gen jsonParse_throws 0 True ''hello'' state0_gen)
       = (''QR format not recognized.'', True)" by code_simp
  from none unusable 1 2 3 4 show ?thesis by blast
qed

section \<open>The record store\<close>

subsection \<open>Order of the keys\<close>

lemma upsertRecord_order:
  "recordKey r \<noteq> [] \<Longrightarrow>
     order (upsertRecord stamp r s) = recordKey r # filter (\<lambda>item. item \<noteq> recordKey r) (order s)"
  by (simp add: upsertRecord_def setStatus_def Let_def)

lemma upsertRecord_gen_order:
  "recordKey_gen r \<noteq> [] \<Longrightarrow>
     order (upsertRecord_gen canStore r s)
       = recordKey_gen r # filter (\<lambda>item. item \<noteq> recordKey_gen r) (order s)"
  by (simp add: upsertRecord_gen_def saveRecords_def setStatus_def Let_def)

text \<open>
  C8. An upsert of a record with a key leaves the order sequence equal to that key
  followed by the former sequence without it, so the key touched last is first. Starting
  from the empty store, upserts with the keys A, B, A (A and B different) leave [A, B].
  Both programs.
\<close>

theorem upsert_order:
  "(recordKey r \<noteq> [] \<longrightarrow>
      order (upsertRecord stamp r s) = recordKey r # filter (\<lambda>k. k \<noteq> recordKey r) (order s))
   \<and> (recordKey_gen q \<noteq> [] \<longrightarrow>
      order (upsertRecord_gen canStore q g)
        = recordKey_gen q # filter (\<lambda>k. k \<noteq> recordKey_gen q) (order g))
   \<and> (recordKey a \<noteq> [] \<and> recordKey b \<noteq> [] \<and> recordKey a \<noteq> recordKey b
        \<and> recordKey a' = recordKey a \<longrightarrow>
      order (upsertRecord t3 a' (upsertRecord t2 b (upsertRecord t1 a state0)))
        = [recordKey a, recordKey b])
   \<and> (recordKey_gen c \<noteq> [] \<and> recordKey_gen d \<noteq> [] \<and> recordKey_gen c \<noteq> recordKey_gen d
        \<and> recordKey_gen c' = recordKey_gen c \<longrightarrow>
      order (upsertRecord_gen s3 c' (upsertRecord_gen s2 d (upsertRecord_gen s1 c state0_gen)))
        = [recordKey_gen c, recordKey_gen d])"
proof (intro conjI impI)
  assume "recordKey r \<noteq> []"
  then show "order (upsertRecord stamp r s)
      = recordKey r # filter (\<lambda>k. k \<noteq> recordKey r) (order s)"
    by (rule upsertRecord_order)
next
  assume "recordKey_gen q \<noteq> []"
  then show "order (upsertRecord_gen canStore q g)
      = recordKey_gen q # filter (\<lambda>k. k \<noteq> recordKey_gen q) (order g)"
    by (rule upsertRecord_gen_order)
next
  assume h: "recordKey a \<noteq> [] \<and> recordKey b \<noteq> [] \<and> recordKey a \<noteq> recordKey b
        \<and> recordKey a' = recordKey a"
  then have 1: "order (upsertRecord t1 a state0) = [recordKey a]"
    by (simp add: upsertRecord_order state0_def)
  from h have 2: "order (upsertRecord t2 b (upsertRecord t1 a state0)) = [recordKey b, recordKey a]"
    by (auto simp: upsertRecord_order 1)
  from h show "order (upsertRecord t3 a' (upsertRecord t2 b (upsertRecord t1 a state0)))
      = [recordKey a, recordKey b]"
    by (auto simp: upsertRecord_order 2)
next
  assume h: "recordKey_gen c \<noteq> [] \<and> recordKey_gen d \<noteq> [] \<and> recordKey_gen c \<noteq> recordKey_gen d
        \<and> recordKey_gen c' = recordKey_gen c"
  then have 1: "order (upsertRecord_gen s1 c state0_gen) = [recordKey_gen c]"
    by (simp add: upsertRecord_gen_order state0_gen_def)
  from h have 2: "order (upsertRecord_gen s2 d (upsertRecord_gen s1 c state0_gen))
      = [recordKey_gen d, recordKey_gen c]"
    by (auto simp: upsertRecord_gen_order 1)
  from h show "order (upsertRecord_gen s3 c' (upsertRecord_gen s2 d (upsertRecord_gen s1 c state0_gen)))
      = [recordKey_gen c, recordKey_gen d]"
    by (auto simp: upsertRecord_gen_order 2)
qed

theorem upsert_order_witness:
  "recordKey (parsePrintLetter print_letter_sample) = ''1234''
   \<and> recordKey (parseOfflinePaperless offline_sample) = ''5678''
   \<and> recordKey (parsePrintLetter print_letter_nameless) = ''1234''
   \<and> order (upsertRecord ''t3'' (parsePrintLetter print_letter_nameless)
        (upsertRecord ''t2'' (parseOfflinePaperless offline_sample)
          (upsertRecord ''t1'' (parsePrintLetter print_letter_sample) state0)))
       = [''1234'', ''5678'']
   \<and> recordKey_gen jane = ''email:jane@x.com''
   \<and> recordKey_gen ravi = ''user:ravi''
   \<and> recordKey_gen jane_again = ''email:jane@x.com''
   \<and> order (upsertRecord_gen True jane_again
        (upsertRecord_gen True ravi (upsertRecord_gen True jane state0_gen)))
       = [''email:jane@x.com'', ''user:ravi'']"
proof -
  have a: "recordKey (parsePrintLetter print_letter_sample) = ''1234''" by code_simp
  have b: "recordKey (parseOfflinePaperless offline_sample) = ''5678''" by code_simp
  have a': "recordKey (parsePrintLetter print_letter_nameless) = ''1234''" by code_simp
  have c: "recordKey_gen jane = ''email:jane@x.com''" by code_simp
  have d: "recordKey_gen ravi = ''user:ravi''" by code_simp
  have c': "recordKey_gen jane_again = ''email:jane@x.com''" by code_simp
  from upsert_order [where a = "parsePrintLetter print_letter_sample"
      and b = "parseOfflinePaperless offline_sample"
      and a' = "parsePrintLetter print_letter_nameless"
      and ?t1.0 = "''t1''" and ?t2.0 = "''t2''" and ?t3.0 = "''t3''"
      and c = jane and d = ravi and c' = jane_again
      and ?s1.0 = True and ?s2.0 = True and ?s3.0 = True]
    a b a' c d c'
  have "order (upsertRecord ''t3'' (parsePrintLetter print_letter_nameless)
        (upsertRecord ''t2'' (parseOfflinePaperless offline_sample)
          (upsertRecord ''t1'' (parsePrintLetter print_letter_sample) state0)))
       = [''1234'', ''5678'']"
    and "order (upsertRecord_gen True jane_again
        (upsertRecord_gen True ravi (upsertRecord_gen True jane state0_gen)))
       = [''email:jane@x.com'', ''user:ravi'']"
    by simp_all
  with a b a' c d c' show ?thesis by blast
qed

subsection \<open>The order and the map stay in step\<close>

lemma lockstep_touch:
  assumes "lockstep m ks"
  shows "lockstep (m(key \<mapsto> r)) (key # filter (\<lambda>item. item \<noteq> key) ks)"
  using assms by (auto simp: lockstep_def)

lemma upsertRecord_lockstep:
  "lockstep (records s) (order s) \<Longrightarrow>
     lockstep (records (upsertRecord stamp r s)) (order (upsertRecord stamp r s))"
  by (simp add: upsertRecord_def setStatus_def Let_def lockstep_touch)

lemma handleScanResult_lockstep:
  "lockstep (records s) (order s) \<Longrightarrow>
     lockstep (records (handleScanResult e now stamp v s)) (order (handleScanResult e now stamp v s))"
  by (simp add: handleScanResult_def Let_def setStatus_def upsertRecord_lockstep split: option.splits)

lemma run_lockstep: "lockstep (records (run ops)) (order (run ops))"
proof -
  have step: "lockstep (records s) (order s) \<Longrightarrow>
      lockstep (records (apply_op op s)) (order (apply_op op s))" for op s
  proof (cases op)
    case Clear
    then show ?thesis by (simp add: clear_def lockstep_def)
  qed (simp_all add: upsertRecord_lockstep handleScanResult_lockstep)
  have "lockstep (records s) (order s) \<Longrightarrow>
      lockstep (records (foldl (\<lambda>s op. apply_op op s) s ops))
               (order (foldl (\<lambda>s op. apply_op op s) s ops))" for s
    by (induction ops arbitrary: s) (simp_all add: step)
  moreover have "lockstep (records (state0 :: jsobj state)) (order (state0 :: jsobj state))"
    by (simp add: state0_def lockstep_def)
  ultimately show ?thesis unfolding run_def by blast
qed

lemma snapshot_keys:
  "map fst (snapshot s) = filter (\<lambda>key. records s key \<noteq> None) (order s)"
proof -
  have "map fst (concat (map (\<lambda>key. case m key of None \<Rightarrow> [] | Some r \<Rightarrow> [(key, r)]) ks))
      = filter (\<lambda>key. m key \<noteq> None) ks" for m :: "string \<rightharpoonup> qr_record" and ks
    by (induction ks) (auto split: option.splits)
  then show ?thesis by (simp add: snapshot_def)
qed

lemma saveRecords_ok:
  assumes "stored_ok s"
  shows "stored_ok (saveRecords canStore s)"
proof -
  from assms have "distinct (order s)" by (simp add: stored_ok_def lockstep_def)
  then have "distinct (map fst (snapshot s))" by (simp add: snapshot_keys)
  with assms show ?thesis by (simp add: saveRecords_def stored_ok_def setStatus_def)
qed

lemma touch_ok:
  assumes "stored_ok s"
  shows "stored_ok (setStatus m b (saveRecords canStore
           (s\<lparr>records := (records s)(key \<mapsto> nxt),
              order := key # filter (\<lambda>item. item \<noteq> key) (order s)\<rparr>)))"
proof -
  let ?touched = "s\<lparr>records := (records s)(key \<mapsto> nxt),
              order := key # filter (\<lambda>item. item \<noteq> key) (order s)\<rparr>"
  have "stored_ok ?touched"
    using assms by (simp add: stored_ok_def lockstep_touch)
  then have "stored_ok (saveRecords canStore ?touched)" by (rule saveRecords_ok)
  then show ?thesis by (simp add: stored_ok_def setStatus_def)
qed

lemma upsertRecord_gen_ok:
  assumes "stored_ok s"
  shows "stored_ok (upsertRecord_gen canStore r s)"
proof (cases "recordKey_gen r = []")
  case True
  with assms show ?thesis by (simp add: upsertRecord_gen_def stored_ok_def setStatus_def)
next
  case False
  then show ?thesis
    unfolding upsertRecord_gen_def Let_def using touch_ok [OF assms] by simp
qed

lemma setStatus_ok: "stored_ok s \<Longrightarrow> stored_ok (setStatus m b s)"
  by (simp add: stored_ok_def setStatus_def)

lemma handleScanResult_gen_ok:
  assumes "stored_ok s"
  shows "stored_ok (handleScanResult_gen jp now canStore v s)"
proof -
  let ?armed = "s\<lparr>lastValue := Some v, lastValueTs := now\<rparr>"
  have armed: "stored_ok ?armed"
    using assms by (simp add: stored_ok_def)
  have "handleScanResult_gen jp now canStore v s = s
        \<or> handleScanResult_gen jp now canStore v s = setStatus ''QR format not recognized.'' True ?armed
        \<or> handleScanResult_gen jp now canStore v s = ?armed
        \<or> (\<exists>r. handleScanResult_gen jp now canStore v s = upsertRecord_gen canStore r ?armed)"
    by (auto simp: handleScanResult_gen_def Let_def split: option.splits)
  then show ?thesis
    using assms armed setStatus_ok [OF armed] upsertRecord_gen_ok [OF armed] by auto
qed

lemma loadEntry_step:
  "order (loadEntry s entry) = order s @ filter (\<lambda>key. key \<noteq> []) [fst entry]
   \<and> dom (records (loadEntry s entry))
       = dom (records s) \<union> set (filter (\<lambda>key. key \<noteq> []) [fst entry])
   \<and> localStorage (loadEntry s entry) = localStorage s"
  by (simp add: loadEntry_def Let_def)

lemma loadEntry_fold:
  "order (foldl loadEntry s parsed) = order s @ filter (\<lambda>key. key \<noteq> []) (map fst parsed)
   \<and> dom (records (foldl loadEntry s parsed))
       = dom (records s) \<union> set (filter (\<lambda>key. key \<noteq> []) (map fst parsed))
   \<and> localStorage (foldl loadEntry s parsed) = localStorage s"
proof (induction parsed arbitrary: s)
  case Nil
  show ?case by simp
next
  case (Cons entry parsed)
  have "foldl loadEntry s (entry # parsed) = foldl loadEntry (loadEntry s entry) parsed"
    by simp
  then show ?case
    using Cons.IH [of "loadEntry s entry"] loadEntry_step [of s entry]
    by (simp only: list.map filter.simps append_assoc set_append Un_assoc)
       (auto split: if_splits)
qed

lemma init_ok:
  assumes "case stored of None \<Rightarrow> True | Some parsed \<Rightarrow> distinct (map fst parsed)"
  shows "stored_ok (init isSecureContext detectorReady stored)"
proof -
  let ?s = "state0_gen\<lparr>localStorage := stored\<rparr>"
  have fresh: "stored_ok ?s"
    using assms by (simp add: stored_ok_def state0_gen_def lockstep_def)
  have "stored_ok (loadRecords ?s)"
  proof (cases stored)
    case None
    with fresh show ?thesis by (simp add: loadRecords_def)
  next
    case (Some parsed)
    with assms have d: "distinct (map fst parsed)" by simp
    have "loadRecords ?s = foldl loadEntry ?s parsed" using Some by (simp add: loadRecords_def)
    moreover have "distinct (filter (\<lambda>key. key \<noteq> []) (map fst parsed))" using d by simp
    ultimately show ?thesis
      using loadEntry_fold [of ?s parsed] Some d
      by (simp add: stored_ok_def lockstep_def state0_gen_def)
  qed
  with fresh show ?thesis by (simp add: init_def Let_def setStatus_def stored_ok_def)
qed

lemma run_gen_ok: "stored_ok (run_gen ops)"
proof -
  have step: "stored_ok s \<Longrightarrow> stored_ok (apply_op_gen op s)" for op s
  proof (cases op)
    case (Upsert_gen canStore r)
    assume "stored_ok s"
    then show ?thesis using Upsert_gen by (simp add: upsertRecord_gen_ok)
  next
    case (Scan_gen jp now canStore v)
    assume "stored_ok s"
    then show ?thesis using Scan_gen by (simp add: handleScanResult_gen_ok)
  next
    case (Restore a b)
    assume "stored_ok s"
    then have "case localStorage s of None \<Rightarrow> True | Some parsed \<Rightarrow> distinct (map fst parsed)"
      by (simp add: stored_ok_def)
    then show ?thesis using Restore by (simp add: init_ok)
  next
    case Clear_gen
    assume "stored_ok s"
    then show ?thesis using Clear_gen by (simp add: clear_def stored_ok_def lockstep_def)
  qed
  have "stored_ok s \<Longrightarrow> stored_ok (foldl (\<lambda>s op. apply_op_gen op s) s ops)" for s
    by (induction ops arbitrary: s) (simp_all add: step)
  moreover have "stored_ok state0_gen" by (simp add: stored_ok_def state0_gen_def lockstep_def)
  ultimately show ?thesis unfolding run_gen_def by blast
qed

text \<open>
  C9. After every sequence of store operations (upserts, handled scan results, clears,
  and in the second program restores from the saved snapshot), every key of the order
  sequence occurs in it once and has its entry in the map, and every key of the map
  occurs in the order sequence.
\<close>

theorem store_lockstep:
  "distinct (order (run ops)) \<and> set (order (run ops)) = dom (records (run ops))
   \<and> distinct (order (run_gen gops)) \<and> set (order (run_gen gops)) = dom (records (run_gen gops))"
  using run_lockstep [of ops] run_gen_ok [of gops] by (simp add: stored_ok_def lockstep_def)

theorem store_lockstep_witness:
  "distinct (order (run_gen ops_sample))
   \<and> set (order (run_gen ops_sample)) = dom (records (run_gen ops_sample))
   \<and> order (run_gen ops_sample) = [''user:ravi'', ''email:jane@x.com'']
   \<and> order (run_gen (take 4 ops_sample)) = [''email:jane@x.com'', ''user:ravi'']"
proof -
  have a: "order (run_gen ops_sample) = [''user:ravi'', ''email:jane@x.com'']" by code_simp
  have b: "order (run_gen (take 4 ops_sample)) = [''email:jane@x.com'', ''user:ravi'']" by code_simp
  from store_lockstep [of "[]" ops_sample] a b show ?thesis by simp
qed

subsection \<open>Merging with the stored record\<close>

text \<open>
  C1 on \<^verbatim>\<open>src/app.js\<close>: the spread \<^verbatim>\<open>{...existing, ...record}\<close> lets an empty
  property of the incoming record replace the stored value. A record with uid 1234 and
  name A is stored; a second record with the same uid and no name attribute (its name is
  the empty string) is upserted; the stored name is then empty.
\<close>

theorem upsertRecord_blank_overwrites:
  "recordKey (parsePrintLetter print_letter_sample) = ''1234''
   \<and> recordKey (parsePrintLetter print_letter_nameless) = ''1234''
   \<and> field (parsePrintLetter print_letter_nameless) ''name'' = []
   \<and> map_option (\<lambda>r. field r ''name'')
        (records (upsertRecord ''t1'' (parsePrintLetter print_letter_sample) state0) ''1234'')
       = Some ''A''
   \<and> map_option (\<lambda>r. field r ''name'')
        (records (upsertRecord ''t2'' (parsePrintLetter print_letter_nameless)
                   (upsertRecord ''t1'' (parsePrintLetter print_letter_sample) state0)) ''1234'')
       = Some []"
  by code_simp

text \<open>The second program merges field by field and keeps the stored value where the
  incoming one is empty.\<close>

lemma upsertRecord_gen_keeps:
  assumes "recordKey_gen r \<noteq> []" and "records s (recordKey_gen r) = Some ex"
  shows "\<exists>nxt. records (upsertRecord_gen canStore r s) (recordKey_gen r) = Some nxt
     \<and> (username r = [] \<longrightarrow> username nxt = username ex)
     \<and> (dob r = [] \<longrightarrow> dob nxt = dob ex)
     \<and> (age r = [] \<longrightarrow> age nxt = age ex)
     \<and> (gender r = [] \<longrightarrow> gender nxt = gender ex)
     \<and> (mobile r = [] \<longrightarrow> mobile nxt = mobile ex)
     \<and> (email r = [] \<longrightarrow> email nxt = email ex)"
  using assms
  by (simp add: upsertRecord_gen_def saveRecords_def setStatus_def Let_def)

end
